theory Spec2Isabelle
  imports Complex_Main "HOL-Library.Word"
begin

section \<open>Floating-point samples\<close>

text \<open>
  The C++ code computes on \<^verbatim>\<open>float\<close> and \<^verbatim>\<open>qreal\<close> values. They are modelled by
  \<open>cfloat\<close>: a finite value is a real number, and the three special values of IEEE-754
  arithmetic are kept, since the code reaches them on ordinary input (\<^verbatim>\<open>logf(0)\<close> is
  \<open>-inf\<close>, \<^verbatim>\<open>0.0f / 0\<close> is NaN, every comparison with NaN is false). The operations
  \<open>fadd\<close>, \<open>fsub\<close>, \<open>fmul\<close> and \<open>fdiv\<close> are exact on finite values: they model
  neither rounding nor overflow to infinity. The operations \<open>fadd32\<close>, \<open>fsub32\<close>,
  \<open>fmul32\<close> and \<open>fdiv32\<close> round the exact result to the nearest single-precision
  value; they are used in \<^verbatim>\<open>rgb2hsl\<close>, \<^verbatim>\<open>hueMean\<close> and \<^verbatim>\<open>hueSquaredMean\<close>, where the
  order of the hue scores, and with it the reference exposure, depends on the rounding.
  The sign of zero is not modelled.
\<close>

datatype cfloat = Fin real | PInf | MInf | NaN

fun fneg :: "cfloat \<Rightarrow> cfloat" where
  "fneg (Fin a) = Fin (- a)"
| "fneg PInf = MInf"
| "fneg MInf = PInf"
| "fneg NaN = NaN"

fun fadd :: "cfloat \<Rightarrow> cfloat \<Rightarrow> cfloat" where
  "fadd (Fin a) (Fin b) = Fin (a + b)"
| "fadd NaN _ = NaN"
| "fadd _ NaN = NaN"
| "fadd PInf MInf = NaN"
| "fadd MInf PInf = NaN"
| "fadd PInf _ = PInf"
| "fadd _ PInf = PInf"
| "fadd MInf _ = MInf"
| "fadd _ MInf = MInf"

definition fsub :: "cfloat \<Rightarrow> cfloat \<Rightarrow> cfloat" where
  "fsub a b = fadd a (fneg b)"

text \<open>The sign of a non-NaN value, as \<open>-1\<close>, \<open>0\<close> or \<open>1\<close>.\<close>

fun fsgn :: "cfloat \<Rightarrow> int" where
  "fsgn (Fin a) = (if a < 0 then - 1 else if a = 0 then 0 else 1)"
| "fsgn PInf = 1"
| "fsgn MInf = - 1"
| "fsgn NaN = 0"

definition inf_of_sign :: "int \<Rightarrow> cfloat" where
  "inf_of_sign k = (if k < 0 then MInf else if k = 0 then NaN else PInf)"

fun fmul :: "cfloat \<Rightarrow> cfloat \<Rightarrow> cfloat" where
  "fmul (Fin a) (Fin b) = Fin (a * b)"
| "fmul NaN _ = NaN"
| "fmul _ NaN = NaN"
| "fmul a b = inf_of_sign (fsgn a * fsgn b)"

text \<open>
  Division: a finite value divided by zero is an infinity of the dividend's sign, and
  \<open>0 / 0\<close> is NaN (zero is taken as positive); a finite value divided by an infinity
  is zero; an infinity divided by an infinity is NaN.
\<close>

fun fdiv :: "cfloat \<Rightarrow> cfloat \<Rightarrow> cfloat" where
  "fdiv (Fin a) (Fin b) = (if b = 0 then inf_of_sign (fsgn (Fin a)) else Fin (a / b))"
| "fdiv NaN _ = NaN"
| "fdiv _ NaN = NaN"
| "fdiv (Fin a) _ = Fin 0"
| "fdiv a (Fin b) = inf_of_sign (fsgn a * (if b < 0 then - 1 else 1))"
| "fdiv _ _ = NaN"

fun flt :: "cfloat \<Rightarrow> cfloat \<Rightarrow> bool" where
  "flt (Fin a) (Fin b) = (a < b)"
| "flt NaN _ = False"
| "flt _ NaN = False"
| "flt MInf MInf = False"
| "flt MInf _ = True"
| "flt _ MInf = False"
| "flt PInf _ = False"
| "flt _ PInf = True"

fun feq :: "cfloat \<Rightarrow> cfloat \<Rightarrow> bool" where
  "feq (Fin a) (Fin b) = (a = b)"
| "feq PInf PInf = True"
| "feq MInf MInf = True"
| "feq _ _ = False"

definition fgt :: "cfloat \<Rightarrow> cfloat \<Rightarrow> bool" where
  "fgt a b = flt b a"

definition fle :: "cfloat \<Rightarrow> cfloat \<Rightarrow> bool" where
  "fle a b = (flt a b \<or> feq a b)"

definition fge :: "cfloat \<Rightarrow> cfloat \<Rightarrow> bool" where
  "fge a b = fle b a"

fun fabs :: "cfloat \<Rightarrow> cfloat" where
  "fabs (Fin a) = Fin \<bar>a\<bar>"
| "fabs PInf = PInf"
| "fabs MInf = PInf"
| "fabs NaN = NaN"

text \<open>\<^verbatim>\<open>std::max(a, b)\<close> is \<^verbatim>\<open>(a < b) ? b : a\<close>; \<^verbatim>\<open>std::min(a, b)\<close> is \<^verbatim>\<open>(b < a) ? b : a\<close>.\<close>

definition fmax :: "cfloat \<Rightarrow> cfloat \<Rightarrow> cfloat" where
  "fmax a b = (if flt a b then b else a)"

definition fmin :: "cfloat \<Rightarrow> cfloat \<Rightarrow> cfloat" where
  "fmin a b = (if flt b a then b else a)"

text \<open>\<^verbatim>\<open>logf\<close>, \<^verbatim>\<open>log2f\<close> and \<^verbatim>\<open>exp2f\<close> of the C library.\<close>

fun logf :: "cfloat \<Rightarrow> cfloat" where
  "logf (Fin a) = (if a < 0 then NaN else if a = 0 then MInf else Fin (ln a))"
| "logf PInf = PInf"
| "logf MInf = NaN"
| "logf NaN = NaN"

fun log2f :: "cfloat \<Rightarrow> cfloat" where
  "log2f (Fin a) = (if a < 0 then NaN else if a = 0 then MInf else Fin (log 2 a))"
| "log2f PInf = PInf"
| "log2f MInf = NaN"
| "log2f NaN = NaN"

fun exp2f :: "cfloat \<Rightarrow> cfloat" where
  "exp2f (Fin a) = Fin (2 powr a)"
| "exp2f PInf = PInf"
| "exp2f MInf = Fin 0"
| "exp2f NaN = NaN"

text \<open>
  The cast \<^verbatim>\<open>(int)h\<close> truncates a finite value towards zero. On an infinity or NaN the
  cast is undefined in C++; the model gives \<open>None\<close> there.
\<close>

fun to_int :: "cfloat \<Rightarrow> int option" where
  "to_int (Fin a) = Some (if 0 \<le> a then \<lfloor>a\<rfloor> else \<lceil>a\<rceil>)"
| "to_int _ = None"

text \<open>The value a finite sample stands for (used in statements only).\<close>

fun real_of :: "cfloat \<Rightarrow> real" where
  "real_of (Fin a) = a"
| "real_of _ = 0"

fun is_fin :: "cfloat \<Rightarrow> bool" where
  "is_fin (Fin a) = True"
| "is_fin _ = False"

subsection \<open>Rounding to single precision\<close>

text \<open>
  \<open>rne\<close> rounds a real number to the nearest integer, a tie to the even one. A
  single-precision value is \<open>n * 2 ^ (e - 23)\<close> with \<open>n < 2 ^ 24\<close> and
  \<open>-126 \<le> e \<le> 127\<close>. For \<open>x > 0\<close>, \<open>f32exp x\<close> is the exponent of \<open>x\<close>, at least \<open>-126\<close>
  (below \<open>2 ^ -126\<close> the values are subnormal), and \<open>f32mag x\<close> is the multiple of
  \<open>2 ^ (e - 23)\<close> nearest to \<open>x\<close>. This is the rounded value unless it reaches \<open>2 ^ 128\<close>,
  when the result is an infinity.
\<close>

definition rne :: "real \<Rightarrow> int" where
  "rne x = (let n = \<lfloor>x\<rfloor>; d = x - of_int n in
            if d < 1/2 then n else if 1/2 < d then n + 1 else if even n then n else n + 1)"

definition f32exp :: "real \<Rightarrow> int" where
  "f32exp x = max \<lfloor>log 2 x\<rfloor> (- 126)"

definition f32mag :: "real \<Rightarrow> real" where
  "f32mag x = (let q = 2 powr (of_int (f32exp x) - 23) in of_int (rne (x / q)) * q)"

definition f32 :: "real \<Rightarrow> cfloat" where
  "f32 x = (if x = 0 then Fin 0
            else let y = f32mag \<bar>x\<bar> in
              if 2 ^ 128 \<le> y then (if x < 0 then MInf else PInf)
              else Fin (if x < 0 then - y else y))"

fun fround :: "cfloat \<Rightarrow> cfloat" where
  "fround (Fin x) = f32 x"
| "fround PInf = PInf"
| "fround MInf = MInf"
| "fround NaN = NaN"

text \<open>The four operations on \<^verbatim>\<open>float\<close> operands, rounded.\<close>

definition fadd32 :: "cfloat \<Rightarrow> cfloat \<Rightarrow> cfloat" where
  "fadd32 a b = fround (fadd a b)"

definition fsub32 :: "cfloat \<Rightarrow> cfloat \<Rightarrow> cfloat" where
  "fsub32 a b = fround (fsub a b)"

definition fmul32 :: "cfloat \<Rightarrow> cfloat \<Rightarrow> cfloat" where
  "fmul32 a b = fround (fmul a b)"

definition fdiv32 :: "cfloat \<Rightarrow> cfloat \<Rightarrow> cfloat" where
  "fdiv32 a b = fround (fdiv a b)"

section \<open>Constants\<close>

definition max_rgb :: cfloat where
  "max_rgb = Fin 65535"

definition max_lightness :: cfloat where
  "max_lightness = Fin 65535"

definition gridSize :: nat where
  "gridSize = 40"

section \<open>Colour conversion\<close>

text \<open>
  \<^verbatim>\<open>rgb2hsl(r, g, b, h, s, l)\<close>: the three outputs are returned as a triple \<open>(h, s, l)\<close>.
  When the test \<^verbatim>\<open>s > 0\<close> fails the function returns with \<open>s\<close> still holding \<open>v - m\<close>.
  Every arithmetic operation rounds to single precision.
\<close>

definition rgb2hsl :: "cfloat \<Rightarrow> cfloat \<Rightarrow> cfloat \<Rightarrow> cfloat \<times> cfloat \<times> cfloat" where
  "rgb2hsl r g b =
    (let v = fmax (fmax r g) b;
         m = fmin (fmin r g) b;
         l = fdiv32 (fadd32 m v) (Fin 2)
     in if fle l (Fin 0) then (Fin 0, Fin 0, l)
        else
          let vm = fsub32 v m in
          if fgt vm (Fin 0) then
            let s = fdiv32 vm (if fle l (Fin (1/2)) then fadd32 v m else fsub32 (fsub32 (Fin 2) v) m);
                r2 = fdiv32 (fsub32 v r) vm;
                g2 = fdiv32 (fsub32 v g) vm;
                b2 = fdiv32 (fsub32 v b) vm;
                h = (if feq r v then (if feq g m then fadd32 (Fin 5) b2 else fsub32 (Fin 1) g2)
                     else if feq g v then (if feq b m then fadd32 (Fin 1) r2 else fsub32 (Fin 3) b2)
                     else (if feq r m then fadd32 (Fin 3) g2 else fsub32 (Fin 5) r2))
            in (fdiv32 h (Fin 6), s, l)
          else (Fin 0, vm, l))"

text \<open>
  \<^verbatim>\<open>hsl2rgb(h, sl, l, r, g, b)\<close>: the outputs are returned as \<open>(r, g, b)\<close>. They start as
  \<open>(l, l, l)\<close> and are overwritten by the \<^verbatim>\<open>switch\<close> on the sextant, which has cases
  \<open>0\<close> to \<open>5\<close> and no default. The arithmetic of this function is exact.
\<close>

definition hsl2rgb :: "cfloat \<Rightarrow> cfloat \<Rightarrow> cfloat \<Rightarrow> cfloat \<times> cfloat \<times> cfloat" where
  "hsl2rgb h sl l =
    (let v = (if fle l (Fin (1/2)) then fmul l (fadd (Fin 1) sl)
              else fsub (fadd l sl) (fmul l sl))
     in if fgt v (Fin 0) then
          let m = fsub (fadd l l) v;
              sv = fdiv (fsub v m) v;
              h6 = fmul h (Fin 6)
          in (case to_int h6 of
                None \<Rightarrow> (l, l, l)
              | Some sextant \<Rightarrow>
                  let fract = fsub h6 (Fin (of_int sextant));
                      vsf = fmul (fmul v sv) fract;
                      mid1 = fadd m vsf;
                      mid2 = fsub v vsf
                  in if sextant = 0 then (v, mid1, m)
                     else if sextant = 1 then (mid2, v, m)
                     else if sextant = 2 then (m, v, mid1)
                     else if sextant = 3 then (m, mid2, v)
                     else if sextant = 4 then (mid1, m, v)
                     else if sextant = 5 then (v, m, mid2)
                     else (l, l, l))
        else (l, l, l))"

section \<open>Pixel planes\<close>

text \<open>
  Modelled from the spec: \<^verbatim>\<open>pfs::Array2Df\<close> (the spec's PixelPlane), declared in
  \<^verbatim>\<open>Libpfs\<close> outside the sources read here: a two-dimensional array of float samples
  stored row by row, \<^verbatim>\<open>A(x, y)\<close> being the sample of column \<open>x\<close> and row \<open>y\<close> and
  \<^verbatim>\<open>A(i)\<close> the sample at linear index \<open>i\<close>. Neither access checks its index.
\<close>

record Array2Df =
  cols :: nat
  rows :: nat
  elems :: "cfloat list"

definition at2 :: "Array2Df \<Rightarrow> nat \<Rightarrow> nat \<Rightarrow> cfloat" where
  "at2 A x y = elems A ! (y * cols A + x)"

definition at1 :: "Array2Df \<Rightarrow> nat \<Rightarrow> cfloat" where
  "at1 A i = elems A ! i"

definition put2 :: "Array2Df \<Rightarrow> nat \<Rightarrow> nat \<Rightarrow> cfloat \<Rightarrow> Array2Df" where
  "put2 A x y v = A\<lparr>elems := (elems A)[y * cols A + x := v]\<rparr>"

section \<open>Reference selection\<close>

text \<open>
  \<^verbatim>\<open>*std::max_element(data, data + size)\<close>: the scan keeps the current largest element
  and replaces it when it is less than the next one.
\<close>

fun max_element :: "cfloat \<Rightarrow> cfloat list \<Rightarrow> cfloat" where
  "max_element cur [] = cur"
| "max_element cur (x # xs) = max_element (if flt cur x then x else cur) xs"

text \<open>The loop of \<^verbatim>\<open>findIndex\<close>: the first index whose element equals \<open>mx\<close>, or the size.\<close>

fun firstEq :: "cfloat list \<Rightarrow> cfloat \<Rightarrow> nat" where
  "firstEq [] mx = 0"
| "firstEq (x # xs) mx = (if feq x mx then 0 else Suc (firstEq xs mx))"

text \<open>\<^verbatim>\<open>findIndex(data, size)\<close>; on an empty array the C++ dereferences past the end: \<open>None\<close>.\<close>

definition findIndex :: "cfloat list \<Rightarrow> nat option" where
  "findIndex data = (case data of [] \<Rightarrow> None | x # xs \<Rightarrow> Some (firstEq data (max_element x xs)))"

text \<open>
  \<^verbatim>\<open>hueMean(hues, size)\<close>: the sum is accumulated in a \<^verbatim>\<open>float\<close>, and the division
  converts the \<^verbatim>\<open>int\<close> size to \<^verbatim>\<open>float\<close>.
\<close>

definition hueMean :: "cfloat list \<Rightarrow> cfloat" where
  "hueMean hues = fdiv32 (foldl fadd32 (Fin 0) hues) (fround (Fin (real (length hues))))"

definition pixelHue :: "Array2Df \<Rightarrow> Array2Df \<Rightarrow> Array2Df \<Rightarrow> nat \<Rightarrow> nat \<Rightarrow> cfloat" where
  "pixelHue R G B i j = fst (rgb2hsl (at2 R i j) (at2 G i j) (at2 B i j))"

text \<open>
  \<^verbatim>\<open>hueSquaredMean(listR, listG, listB, k)\<close>. The callers pass \<open>k\<close> below the size of
  non-empty lists.
\<close>

definition hueSquaredMean ::
  "Array2Df list \<Rightarrow> Array2Df list \<Rightarrow> Array2Df list \<Rightarrow> nat \<Rightarrow> cfloat" where
  "hueSquaredMean listR listG listB k =
    (let width = cols (listR ! 0);
         height = rows (listR ! 0);
         size = length listR;
         HS = foldl (\<lambda>HS j. foldl (\<lambda>HS i.
                let hues = map (\<lambda>w. pixelHue (listR ! w) (listG ! w) (listB ! w) i j) [0..<size];
                    h = pixelHue (listR ! k) (listG ! k) (listB ! k) i j;
                    H = fsub32 (hueMean hues) h
                in fadd32 HS (fmul32 H H)) HS [0..<width]) (Fin 0) [0..<height]
     in fdiv32 HS (fround (Fin (real (width * height)))))"

definition pixelLightness :: "Array2Df \<Rightarrow> Array2Df \<Rightarrow> Array2Df \<Rightarrow> nat \<Rightarrow> cfloat" where
  "pixelLightness R G B i = snd (snd (rgb2hsl (at1 R i) (at1 G i) (at1 B i)))"

definition maxLightness :: "Array2Df \<Rightarrow> Array2Df \<Rightarrow> Array2Df \<Rightarrow> cfloat" where
  "maxLightness R G B =
    foldl (\<lambda>maxL i. let l = pixelLightness R G B i in if fgt l maxL then l else maxL)
      (Fin 0) [0..<rows R * cols R]"

definition averageLightness :: "Array2Df \<Rightarrow> Array2Df \<Rightarrow> Array2Df \<Rightarrow> cfloat" where
  "averageLightness R G B =
    fdiv (foldl (\<lambda>avgLum i. fadd avgLum (pixelLightness R G B i)) (Fin 0) [0..<rows R * cols R])
      (Fin (real (cols R * rows R)))"

section \<open>Ghost detection on a grid cell\<close>

text \<open>
  The pixels of grid cell \<open>(i, j)\<close> in the order of the two nested loops
  \<^verbatim>\<open>for y in [j*gridY, (j+1)*gridY)\<close>, \<^verbatim>\<open>for x in [i*gridX, (i+1)*gridX)\<close>.
\<close>

definition cellCoords :: "nat \<Rightarrow> nat \<Rightarrow> nat \<Rightarrow> nat \<Rightarrow> (nat \<times> nat) list" where
  "cellCoords i j gridX gridY =
    concat (map (\<lambda>y. map (\<lambda>x. (x, y)) [i * gridX..<(i + 1) * gridX]) [j * gridY..<(j + 1) * gridY])"

definition logDiff :: "cfloat \<Rightarrow> cfloat \<Rightarrow> cfloat \<Rightarrow> cfloat" where
  "logDiff deltaEV c1 c2 =
    (if flt deltaEV (Fin 0) then fsub (fsub (logf c1) (logf c2)) deltaEV
     else fadd (fsub (logf c2) (logf c1)) deltaEV)"

text \<open>
  \<^verbatim>\<open>comparePatches\<close> on float planes. The constant \<^verbatim>\<open>0.7f\<close> is taken as \<open>7/10\<close>. The
  final test divides the count by \<^verbatim>\<open>gridX*gridY\<close> in float arithmetic.
\<close>

definition comparePatches ::
  "Array2Df \<Rightarrow> Array2Df \<Rightarrow> Array2Df \<Rightarrow> Array2Df \<Rightarrow> Array2Df \<Rightarrow> Array2Df \<Rightarrow>
   nat \<Rightarrow> nat \<Rightarrow> nat \<Rightarrow> nat \<Rightarrow> cfloat \<Rightarrow> cfloat \<Rightarrow> bool" where
  "comparePatches R1 G1 B1 R2 G2 B2 i j gridX gridY threshold deltaEV =
    (let cell = cellCoords i j gridX gridY;
         logRed = map (\<lambda>(x, y). logDiff deltaEV (at2 R1 x y) (at2 R2 x y)) cell;
         logGreen = map (\<lambda>(x, y). logDiff deltaEV (at2 G1 x y) (at2 G2 x y)) cell;
         logBlue = map (\<lambda>(x, y). logDiff deltaEV (at2 B1 x y) (at2 B2 x y)) cell;
         threshold1 = fmul (Fin (7/10)) (fabs deltaEV);
         count = length (filter (\<lambda>h. fgt (fabs (logRed ! h)) threshold1
                                     \<or> fgt (fabs (logGreen ! h)) threshold1
                                     \<or> fgt (fabs (logBlue ! h)) threshold1)
                          [0..<gridX * gridY])
     in fgt (fdiv (Fin (real count)) (Fin (real (gridX * gridY)))) threshold)"

text \<open>
  The detection loop of \<^verbatim>\<open>doAutoAntiGhostingMDR\<close> (over the exposures \<open>h\<close> other than
  \<open>h0\<close> and the cells): the grid \<^verbatim>\<open>patches[i][j]\<close> starts all false and a cell is set
  when \<^verbatim>\<open>comparePatches\<close> answers true.
\<close>

definition flagPatchesMDR ::
  "cfloat \<Rightarrow> Array2Df list \<Rightarrow> Array2Df list \<Rightarrow> Array2Df list \<Rightarrow> cfloat list \<Rightarrow>
   nat \<Rightarrow> nat \<Rightarrow> nat \<Rightarrow> (nat \<times> nat \<Rightarrow> bool)" where
  "flagPatchesMDR threshold listR listG listB expotimes h0 gridX gridY =
    foldl (\<lambda>patches h. if h = h0 then patches else
      foldl (\<lambda>patches j. foldl (\<lambda>patches i.
          let deltaEV = fsub (logf (expotimes ! h0)) (logf (expotimes ! h)) in
          if comparePatches (listR ! h0) (listG ! h0) (listB ! h0)
                            (listR ! h) (listG ! h) (listB ! h)
                            i j gridX gridY threshold deltaEV
          then patches((i, j) := True) else patches)
        patches [0..<gridSize]) patches [0..<gridSize])
      (\<lambda>c. False) [0..<length listR]"

text \<open>The count of flagged cells, as the loop before \<^verbatim>\<open>copyPatches\<close> computes it.\<close>

definition countPatches :: "(nat \<times> nat \<Rightarrow> bool) \<Rightarrow> nat" where
  "countPatches patches =
    foldl (\<lambda>count i. foldl (\<lambda>count j. if patches (i, j) then count + 1 else count)
      count [0..<gridSize]) 0 [0..<gridSize]"

section \<open>Ghost correction on float planes\<close>

definition cellLightness :: "Array2Df \<Rightarrow> Array2Df \<Rightarrow> Array2Df \<Rightarrow> nat \<Rightarrow> nat \<Rightarrow> nat \<Rightarrow> nat \<Rightarrow> cfloat" where
  "cellLightness R1 G1 B1 i j gridX gridY =
    fdiv (foldl (\<lambda>avgL (x, y). fadd avgL (snd (snd (rgb2hsl (at2 R1 x y) (at2 G1 x y) (at2 B1 x y)))))
            (Fin 0) (cellCoords i j gridX gridY))
      (Fin (real (gridX * gridY)))"

definition clampRgb :: "cfloat \<Rightarrow> cfloat" where
  "clampRgb c = (let c1 = (if fgt c max_rgb then max_rgb else c)
                 in if flt c1 (Fin 0) then Fin 0 else c1)"

text \<open>The pixel \<^verbatim>\<open>copyPatch\<close> writes: the reference pixel with its lightness scaled by \<open>sf\<close>.\<close>

definition scaledPixel :: "cfloat \<Rightarrow> cfloat \<Rightarrow> cfloat \<Rightarrow> cfloat \<Rightarrow> cfloat \<times> cfloat \<times> cfloat" where
  "scaledPixel sf r1 g1 b1 =
    (case rgb2hsl r1 g1 b1 of (h, s, l) \<Rightarrow>
      let l1 = fmul l sf;
          l2 = (if fgt l1 max_lightness then max_lightness else l1)
      in case hsl2rgb h s l2 of (r, g, b) \<Rightarrow> (clampRgb r, clampRgb g, clampRgb b))"

text \<open>
  \<^verbatim>\<open>copyPatch\<close> on float planes: \<open>R1, G1, B1\<close> are read, the updated \<open>R2, G2, B2\<close> are
  returned.
\<close>

definition copyPatch ::
  "Array2Df \<Rightarrow> Array2Df \<Rightarrow> Array2Df \<Rightarrow> Array2Df \<times> Array2Df \<times> Array2Df \<Rightarrow>
   nat \<Rightarrow> nat \<Rightarrow> nat \<Rightarrow> nat \<Rightarrow> cfloat \<Rightarrow> Array2Df \<times> Array2Df \<times> Array2Df" where
  "copyPatch R1 G1 B1 RGB2 i j gridX gridY sf =
    (let avgL = cellLightness R1 G1 B1 i j gridX gridY in
     if fge avgL max_lightness \<or> fle avgL (Fin 0) then RGB2
     else foldl (\<lambda>(R2, G2, B2) (x, y).
            case scaledPixel sf (at2 R1 x y) (at2 G1 x y) (at2 B1 x y) of (r, g, b) \<Rightarrow>
              (put2 R2 x y r, put2 G2 x y g, put2 B2 x y b))
          RGB2 (cellCoords i j gridX gridY))"

text \<open>
  \<^verbatim>\<open>copyPatches\<close> on float planes; the three lists are returned updated. Entry \<open>h0\<close> of
  each list is read again for every cell.
\<close>

definition copyPatches ::
  "Array2Df list \<times> Array2Df list \<times> Array2Df list \<Rightarrow> (nat \<times> nat \<Rightarrow> bool) \<Rightarrow> nat \<Rightarrow>
   cfloat list \<Rightarrow> nat \<Rightarrow> nat \<Rightarrow> Array2Df list \<times> Array2Df list \<times> Array2Df list" where
  "copyPatches planes patches h0 scalefactor gridX gridY =
    foldl (\<lambda>planes h. if h = h0 then planes else
      foldl (\<lambda>planes j. foldl (\<lambda>(listR, listG, listB) i.
          if patches (i, j) then
            (case copyPatch (listR ! h0) (listG ! h0) (listB ! h0)
                            (listR ! h, listG ! h, listB ! h)
                            i j gridX gridY (scalefactor ! h) of
               (R2, G2, B2) \<Rightarrow> (listR[h := R2], listG[h := G2], listB[h := B2]))
          else (listR, listG, listB))
        planes [0..<gridSize]) planes [0..<gridSize])
      planes [0..<length (fst planes)]"

section \<open>Eight-bit images\<close>

text \<open>
  Modelled from the spec: Qt's \<^verbatim>\<open>QImage\<close> in the 32-bit ARGB format, declared outside
  the sources read here: the pixels are \<^verbatim>\<open>QRgb\<close> words stored row by row.
  \<^verbatim>\<open>pixel(x, y)\<close> answers 12345 for a coordinate outside the image and
  \<^verbatim>\<open>setPixel\<close> ignores one; access through \<^verbatim>\<open>bits()\<close> is unchecked.
\<close>

record QImage =
  qwidth :: nat
  qheight :: nat
  qbits :: "32 word list"

definition qpixel :: "QImage \<Rightarrow> nat \<Rightarrow> nat \<Rightarrow> 32 word" where
  "qpixel img x y =
    (if x < qwidth img \<and> y < qheight img then qbits img ! (y * qwidth img + x) else 12345)"

definition qsetPixel :: "QImage \<Rightarrow> nat \<Rightarrow> nat \<Rightarrow> 32 word \<Rightarrow> QImage" where
  "qsetPixel img x y p =
    (if x < qwidth img \<and> y < qheight img
     then img\<lparr>qbits := (qbits img)[y * qwidth img + x := p]\<rparr> else img)"

definition qAlpha :: "32 word \<Rightarrow> nat" where
  "qAlpha p = unat (drop_bit 24 p)"

text \<open>
  The colour conversions of Qt's \<^verbatim>\<open>QColor\<close> that the code calls are not part of the
  sources; the functions on eight-bit images take them as a parameter:
  \<open>qt_hueF p\<close> is \<^verbatim>\<open>QColor::fromRgb(p).toHsl().hueF()\<close>,
  \<open>qt_value p\<close> is \<^verbatim>\<open>QColor::fromRgb(p).toHsv().value()\<close>,
  \<open>qt_getRgbF p\<close> the components read by \<^verbatim>\<open>QColor::fromRgb(p).getRgbF\<close>,
  \<open>qt_getHsvF p\<close> those read by \<^verbatim>\<open>QColor::fromRgb(p).toHsv().getHsvF\<close>, and
  \<open>qt_fromHsvF h s v\<close> the \<^verbatim>\<open>rgb()\<close> of the colour after \<^verbatim>\<open>setHsvF(h, s, v)\<close>.
\<close>

record QtColor =
  qt_hueF :: "32 word \<Rightarrow> cfloat"
  qt_value :: "32 word \<Rightarrow> int"
  qt_getRgbF :: "32 word \<Rightarrow> cfloat \<times> cfloat \<times> cfloat"
  qt_getHsvF :: "32 word \<Rightarrow> cfloat \<times> cfloat \<times> cfloat"
  qt_fromHsvF :: "cfloat \<Rightarrow> cfloat \<Rightarrow> cfloat \<Rightarrow> 32 word"

definition hueSquaredMeanLDR :: "QtColor \<Rightarrow> QImage list \<Rightarrow> nat \<Rightarrow> cfloat" where
  "hueSquaredMeanLDR qt list k =
    (let width = qwidth (list ! 0);
         height = qheight (list ! 0);
         size = length list;
         HS = foldl (\<lambda>HS j. foldl (\<lambda>HS i.
                let hues = map (\<lambda>h. fround (qt_hueF qt (qpixel (list ! h) i j))) [0..<size];
                    Fk = fround (qt_hueF qt (qpixel (list ! k) i j));
                    H = fsub32 (hueMean hues) Fk
                in fadd32 HS (fmul32 H H)) HS [0..<width]) (Fin 0) [0..<height]
     in fdiv32 HS (fround (Fin (real (width * height)))))"

definition averageLightnessLDR :: "QtColor \<Rightarrow> QImage \<Rightarrow> cfloat" where
  "averageLightnessLDR qt qImage =
    (let w = qwidth qImage; h = qheight qImage in
     fdiv (foldl (\<lambda>avgLum i. fadd avgLum (Fin (of_int (qt_value qt (qbits qImage ! i)))))
             (Fin 0) [0..<h * w])
       (Fin (real (w * h))))"

definition cellLightnessLDR :: "QtColor \<Rightarrow> QImage \<Rightarrow> nat \<Rightarrow> nat \<Rightarrow> nat \<Rightarrow> nat \<Rightarrow> cfloat" where
  "cellLightnessLDR qt qImage i j gridX gridY =
    fdiv (foldl (\<lambda>avgL (x, y). fadd avgL (Fin (of_int (qt_value qt (qpixel qImage x y)))))
            (Fin 0) (cellCoords i j gridX gridY))
      (Fin (real (gridX * gridY)))"

definition comparePatchesLDR ::
  "QtColor \<Rightarrow> QImage \<Rightarrow> QImage \<Rightarrow> nat \<Rightarrow> nat \<Rightarrow> nat \<Rightarrow> nat \<Rightarrow> cfloat \<Rightarrow> cfloat \<Rightarrow> bool" where
  "comparePatchesLDR qt image1 image2 i j gridX gridY threshold deltaEV =
    (let cell = cellCoords i j gridX gridY;
         logs = map (\<lambda>(x, y).
                  case qt_getRgbF qt (qpixel image1 x y) of (r1, g1, b1) \<Rightarrow>
                  case qt_getRgbF qt (qpixel image2 x y) of (r2, g2, b2) \<Rightarrow>
                    (logDiff deltaEV r1 r2, logDiff deltaEV g1 g2, logDiff deltaEV b1 b2)) cell;
         threshold1 = fmul (Fin (7/10)) (fabs deltaEV);
         count = length (filter (\<lambda>h. case logs ! h of (logRed, logGreen, logBlue) \<Rightarrow>
                                       fgt (fabs logRed) threshold1
                                     \<or> fgt (fabs logGreen) threshold1
                                     \<or> fgt (fabs logBlue) threshold1)
                          [0..<gridX * gridY])
     in fgt (fdiv (Fin (real count)) (Fin (real (gridX * gridY)))) threshold)"

definition flagPatchesLDR ::
  "QtColor \<Rightarrow> cfloat \<Rightarrow> QImage list \<Rightarrow> cfloat list \<Rightarrow> nat \<Rightarrow> nat \<Rightarrow> nat \<Rightarrow> (nat \<times> nat \<Rightarrow> bool)" where
  "flagPatchesLDR qt threshold list expotimes h0 gridX gridY =
    foldl (\<lambda>patches h. if h = h0 then patches else
      foldl (\<lambda>patches j. foldl (\<lambda>patches i.
          let deltaEV = fsub (logf (expotimes ! h0)) (logf (expotimes ! h)) in
          if comparePatchesLDR qt (list ! h0) (list ! h) i j gridX gridY threshold deltaEV
          then patches((i, j) := True) else patches)
        patches [0..<gridSize]) patches [0..<gridSize])
      (\<lambda>c. False) [0..<length list]"

definition scaledQRgb :: "QtColor \<Rightarrow> cfloat \<Rightarrow> 32 word \<Rightarrow> 32 word" where
  "scaledQRgb qt sf pixValue =
    (case qt_getHsvF qt pixValue of (h, s, v) \<Rightarrow>
      let v1 = fmul v sf;
          v2 = (if fgt v1 (Fin 1) then Fin 1 else v1)
      in qt_fromHsvF qt h s v2)"

definition copyPatchLDR ::
  "QtColor \<Rightarrow> QImage \<Rightarrow> QImage \<Rightarrow> nat \<Rightarrow> nat \<Rightarrow> nat \<Rightarrow> nat \<Rightarrow> cfloat \<Rightarrow> QImage" where
  "copyPatchLDR qt image1 image2 i j gridX gridY sf =
    (let avgL = cellLightnessLDR qt image1 i j gridX gridY in
     if fge avgL (Fin 255) \<or> feq avgL (Fin 0) then image2
     else foldl (\<lambda>image2 (x, y). qsetPixel image2 x y (scaledQRgb qt sf (qpixel image1 x y)))
            image2 (cellCoords i j gridX gridY))"

definition copyPatchesLDR ::
  "QtColor \<Rightarrow> QImage list \<Rightarrow> (nat \<times> nat \<Rightarrow> bool) \<Rightarrow> nat \<Rightarrow> cfloat list \<Rightarrow> nat \<Rightarrow> nat \<Rightarrow>
   QImage list" where
  "copyPatchesLDR qt list patches h0 scalefactor gridX gridY =
    foldl (\<lambda>list h. if h = h0 then list else
      foldl (\<lambda>list j. foldl (\<lambda>list i.
          if patches (i, j) then
            list[h := copyPatchLDR qt (list ! h0) (list ! h) i j gridX gridY (scalefactor ! h)]
          else list)
        list [0..<gridSize]) list [0..<gridSize])
      list [0..<length list]"

section \<open>Blending\<close>

text \<open>
  The alpha of a pixel of \<^verbatim>\<open>blend\<close>: \<open>None\<close> when both masks are transparent there (the
  pixel is skipped), else the alpha of the good image's mask when it is not zero and
  that of the other mask otherwise, divided by 255.
\<close>

definition blendAlpha :: "32 word \<Rightarrow> 32 word \<Rightarrow> cfloat option" where
  "blendAlpha maskPix goodPix =
    (if qAlpha maskPix = 0 \<and> qAlpha goodPix = 0 then None
     else Some (if qAlpha goodPix = 0 then fdiv (Fin (real (qAlpha maskPix))) (Fin 255)
                else fdiv (Fin (real (qAlpha goodPix))) (Fin 255)))"

text \<open>
  The conversion of the blended value back to \<^verbatim>\<open>QRgb\<close> (an unsigned 32-bit integer)
  truncates; on a value that is not finite the conversion is undefined in C++ and the
  model gives 0.
\<close>

definition to_QRgb :: "cfloat \<Rightarrow> 32 word" where
  "to_QRgb x = (case to_int x of None \<Rightarrow> 0 | Some k \<Rightarrow> word_of_int k)"

text \<open>\<^verbatim>\<open>blend\<close> on eight-bit images: \<open>img1\<close> is returned updated, \<open>img2\<close> is only read.\<close>

definition blendLDR :: "QtColor \<Rightarrow> QImage \<Rightarrow> QImage \<Rightarrow> QImage \<Rightarrow> QImage \<Rightarrow> QImage" where
  "blendLDR qt img1 img2 maskImg maskGoodImage =
    (let width = qwidth img1;
         height = qheight img1;
         sf = fdiv (averageLightnessLDR qt img1) (averageLightnessLDR qt img2)
     in foldl (\<lambda>img1 i.
          case blendAlpha (qbits maskImg ! i) (qbits maskGoodImage ! i) of
            None \<Rightarrow> img1
          | Some alpha \<Rightarrow>
              let pixValue = scaledQRgb qt sf (qbits img2 ! i);
                  blended = fadd (fmul (fsub (Fin 1) alpha) (Fin (real (unat (qbits img1 ! i)))))
                                 (fmul alpha (Fin (real (unat pixValue))))
              in img1\<lparr>qbits := (qbits img1)[i := to_QRgb blended]\<rparr>)
        img1 [0..<width * height])"

text \<open>
  \<^verbatim>\<open>blend\<close> on float planes: \<open>R1, G1, B1\<close> are returned updated; \<open>R2, G2, B2\<close> are only
  read. The scale factor and the lightness ceiling are computed before the loop.
\<close>

definition blendedPixel :: "cfloat \<Rightarrow> cfloat \<Rightarrow> cfloat \<Rightarrow> cfloat \<Rightarrow> cfloat \<Rightarrow> cfloat \<times> cfloat \<times> cfloat" where
  "blendedPixel sf maxL r2 g2 b2 =
    (case rgb2hsl r2 g2 b2 of (h, s, l) \<Rightarrow>
      let l1 = fmul l sf;
          l2 = (if fgt l1 maxL then maxL else l1)
      in case hsl2rgb h s l2 of (r, g, b) \<Rightarrow> (clampRgb r, clampRgb g, clampRgb b))"

definition blend ::
  "Array2Df \<times> Array2Df \<times> Array2Df \<Rightarrow> Array2Df \<Rightarrow> Array2Df \<Rightarrow> Array2Df \<Rightarrow> QImage \<Rightarrow> QImage \<Rightarrow>
   Array2Df \<times> Array2Df \<times> Array2Df" where
  "blend RGB1 R2 G2 B2 maskImg maskGoodImage =
    (case RGB1 of (R1, G1, B1) \<Rightarrow>
      let width = cols R1;
          height = rows R1;
          sf = fdiv (averageLightness R1 G1 B1) (averageLightness R2 G2 B2);
          maxL = fmax (maxLightness R1 G1 B1) (maxLightness R2 G2 B2)
      in foldl (\<lambda>planes j. foldl (\<lambda>(R1, G1, B1) i.
           case blendAlpha (qpixel maskImg i j) (qpixel maskGoodImage i j) of
             None \<Rightarrow> (R1, G1, B1)
           | Some alpha \<Rightarrow>
               (case blendedPixel sf maxL (at2 R2 i j) (at2 G2 i j) (at2 B2 i j) of (r2, g2, b2) \<Rightarrow>
                 (put2 R1 i j (fadd (fmul (fsub (Fin 1) alpha) (at2 R1 i j)) (fmul alpha r2)),
                  put2 G1 i j (fadd (fmul (fsub (Fin 1) alpha) (at2 G1 i j)) (fmul alpha g2)),
                  put2 B1 i j (fadd (fmul (fsub (Fin 1) alpha) (at2 B1 i j)) (fmul alpha b2)))))
         planes [0..<width]) RGB1 [0..<height])"

section \<open>The manager\<close>

datatype input_type = LDR_INPUT_TYPE | MDR_INPUT_TYPE | UNKNOWN_INPUT_TYPE

text \<open>The Qt signals the manager emits, in the order of emission.\<close>

datatype signal =
    ErrorWhileLoading string
  | Processed
  | FileLoaded nat string cfloat
  | ExpotimeValueChanged cfloat nat

text \<open>
  Modelled from the spec: \<^verbatim>\<open>pfs::Frame\<close>, declared outside the sources read here, with
  its three channels (named X, Y, Z and holding R, G, B); the frame's width and height
  are those of its channels.
\<close>

record Frame =
  chanX :: Array2Df
  chanY :: Array2Df
  chanZ :: Array2Df

record HdrCreationItem =
  m_filename :: string
  m_averageLuminance :: cfloat
  m_frame :: Frame
  m_qimage :: QImage

record HdrCreationManager =
  m_data :: "HdrCreationItem list"
  inputType :: input_type
  m_loadingError :: bool
  m_runningThreads :: int
  m_processedFiles :: int
  fromCommandLine :: bool
  m_mdrWidth :: nat
  m_mdrHeight :: nat
  fileList :: "string list"
  expotimes :: "cfloat list"
  filesToRemove :: "string list"
  filesLackingExif :: "string list"
  ldrImagesList :: "QImage option list"
  mdrImagesList :: "QImage option list"
  antiGhostingMasksList :: "QImage option list"
  listmdrR :: "Array2Df option list"
  listmdrG :: "Array2Df option list"
  listmdrB :: "Array2Df option list"
  emitted :: "signal list"

definition emit :: "signal \<Rightarrow> HdrCreationManager \<Rightarrow> HdrCreationManager" where
  "emit sig s = s\<lparr>emitted := emitted s @ [sig]\<rparr>"

text \<open>
  The collaborators outside the sources read here, taken as a parameter:
  \<open>readFrame\<close> is the frame reader (\<open>None\<close> when it throws),
  \<open>getAverageLuminance\<close> the EXIF reader (\<open>None\<close> when it throws),
  \<open>convertSample\<close> the conversion of a sample to eight bits,
  \<open>isValid\<close> the item's validity test, \<open>fromHDRPFStoQImage\<close> the preview of a
  frame, and \<open>fileName\<close> the last component of a path.
\<close>

record Loader =
  readFrame :: "string \<Rightarrow> Frame option"
  getAverageLuminance :: "string \<Rightarrow> cfloat option"
  convertSample :: "cfloat \<Rightarrow> 8 word"
  isValid :: "HdrCreationItem \<Rightarrow> bool"
  fromHDRPFStoQImage :: "Frame \<Rightarrow> QImage"
  fileName :: "string \<Rightarrow> string"

subsection \<open>Loading files\<close>

definition emptyFrame :: Frame where
  "emptyFrame =
    (let e = \<lparr>cols = 0, rows = 0, elems = []\<rparr> in \<lparr>chanX = e, chanY = e, chanZ = e\<rparr>)"

text \<open>The constructor \<^verbatim>\<open>HdrCreationItem(filename)\<close>.\<close>

definition newItem :: "string \<Rightarrow> HdrCreationItem" where
  "newItem filename =
    \<lparr>m_filename = filename, m_averageLuminance = Fin (- 1), m_frame = emptyFrame,
     m_qimage = \<lparr>qwidth = 0, qheight = 0, qbits = []\<rparr>\<rparr>"

definition qRgb :: "8 word \<Rightarrow> 8 word \<Rightarrow> 8 word \<Rightarrow> 32 word" where
  "qRgb r g b = or (or (or (push_bit 24 255) (push_bit 16 (ucast r))) (push_bit 8 (ucast g))) (ucast b)"

text \<open>
  \<^verbatim>\<open>LoadFile\<close>: the frame is read first, then the average luminance, then the preview
  is built; an exception at a step leaves what the earlier steps wrote.
\<close>

definition LoadFile :: "Loader \<Rightarrow> HdrCreationItem \<Rightarrow> HdrCreationItem" where
  "LoadFile ext currentItem =
    (case readFrame ext (m_filename currentItem) of
       None \<Rightarrow> currentItem
     | Some frame \<Rightarrow>
         let item1 = currentItem\<lparr>m_frame := frame\<rparr> in
         (case getAverageLuminance ext (m_filename currentItem) of
            None \<Rightarrow> item1
          | Some lum \<Rightarrow>
              let red = chanX frame; green = chanY frame; blue = chanZ frame;
                  tempImage = \<lparr>qwidth = cols red, qheight = rows red,
                               qbits = map (\<lambda>k. qRgb (convertSample ext (at1 red k))
                                                     (convertSample ext (at1 green k))
                                                     (convertSample ext (at1 blue k)))
                                         [0..<length (elems red)]\<rparr>
              in item1\<lparr>m_averageLuminance := lum, m_qimage := tempImage\<rparr>))"

definition checkFileName :: "HdrCreationItem \<Rightarrow> string \<Rightarrow> bool" where
  "checkFileName item str = (m_filename item = str)"

text \<open>
  The first loop of \<^verbatim>\<open>loadFiles\<close>: the items scheduled for loading, one for every
  requested name that \<^verbatim>\<open>find_if\<close> does not find in \<open>m_data\<close>.
\<close>

definition tempItemsOf :: "HdrCreationItem list \<Rightarrow> string list \<Rightarrow> HdrCreationItem list" where
  "tempItemsOf data filenames =
    map newItem (filter (\<lambda>i. find (\<lambda>item. checkFileName item i) data = None) filenames)"

text \<open>
  \<^verbatim>\<open>loadFiles\<close>; \<open>canceled\<close> is what \<^verbatim>\<open>futureWatcher.isCanceled()\<close> answers after the
  wait. The parallel map is run as a sequential one: the tasks share no data.
\<close>

definition loadFiles :: "Loader \<Rightarrow> bool \<Rightarrow> string list \<Rightarrow> HdrCreationManager \<Rightarrow> HdrCreationManager" where
  "loadFiles ext canceled filenames s =
    (let tempItems = map (LoadFile ext) (tempItemsOf (m_data s) filenames) in
     if canceled then s
     else s\<lparr>m_data := m_data s @ filter (isValid ext) tempItems\<rparr>)"

subsection \<open>Arrival of a loaded image\<close>

text \<open>
  A store \<^verbatim>\<open>xs[index] = v\<close> into a Qt or standard container: outside the container the
  C++ asserts or is undefined, and the model gives \<open>None\<close>.
\<close>

definition storeAt :: "'a list \<Rightarrow> nat \<Rightarrow> 'a \<Rightarrow> 'a list option" where
  "storeAt xs index v = (if index < length xs then Some (xs[index := v]) else None)"

fun mdrsSame ::
  "Array2Df option list \<Rightarrow> Array2Df option list \<Rightarrow> Array2Df option list \<Rightarrow> nat \<Rightarrow> nat \<Rightarrow> bool option" where
  "mdrsSame [] gs bs w h = Some True"
| "mdrsSame (r # rs) [] bs w h = None"
| "mdrsSame (r # rs) (g # gs) [] w h = None"
| "mdrsSame (r # rs) (g # gs) (b # bs) w h =
    (case (r, g, b) of
       (Some Rp, Some Gp, Some Bp) \<Rightarrow>
         if cols Rp \<noteq> w \<or> rows Rp \<noteq> h \<or> cols Gp \<noteq> w \<or> rows Gp \<noteq> h \<or> cols Bp \<noteq> w \<or> rows Bp \<noteq> h
         then Some False else mdrsSame rs gs bs w h
     | _ \<Rightarrow> mdrsSame rs gs bs w h)"

text \<open>\<^verbatim>\<open>mdrsHaveSameSize\<close>; \<open>None\<close> when \<^verbatim>\<open>.at(i)\<close> throws on a shorter G or B list.\<close>

definition mdrsHaveSameSize :: "HdrCreationManager \<Rightarrow> nat \<Rightarrow> nat \<Rightarrow> bool option" where
  "mdrsHaveSameSize s currentWidth currentHeight =
    mdrsSame (listmdrR s) (listmdrG s) (listmdrB s) currentWidth currentHeight"

fun ldrsSame :: "QImage option list \<Rightarrow> nat \<Rightarrow> nat \<Rightarrow> bool" where
  "ldrsSame [] w h = True"
| "ldrsSame (p # ps) w h =
    (case p of
       Some img \<Rightarrow> if qwidth img \<noteq> w \<or> qheight img \<noteq> h then False else ldrsSame ps w h
     | None \<Rightarrow> ldrsSame ps w h)"

definition ldrsHaveSameSize :: "HdrCreationManager \<Rightarrow> nat \<Rightarrow> nat \<Rightarrow> bool" where
  "ldrsHaveSameSize s currentWidth currentHeight = ldrsSame (ldrImagesList s) currentWidth currentHeight"

definition transparentMask :: "nat \<Rightarrow> nat \<Rightarrow> QImage" where
  "transparentMask w h = \<lparr>qwidth = w, qheight = h, qbits = replicate (w * h) 0\<rparr>"

text \<open>\<^verbatim>\<open>newResult\<close>: the housekeeping after an accepted image.\<close>

definition newResult ::
  "Loader \<Rightarrow> nat \<Rightarrow> cfloat \<Rightarrow> string \<Rightarrow> HdrCreationManager \<Rightarrow> HdrCreationManager option" where
  "newResult ext index expotime newfname s =
    (if length (fileList s) \<le> index then None
     else
       let s1 = s\<lparr>m_runningThreads := m_runningThreads s - 1,
                  m_processedFiles := m_processedFiles s + 1\<rparr>;
           fname = fileList s ! index
       in case (if fname \<noteq> newfname then storeAt (filesToRemove s1) index newfname
                else Some (filesToRemove s1)) of
            None \<Rightarrow> None
          | Some ftr \<Rightarrow>
              (case storeAt (expotimes s1) index expotime of
                 None \<Rightarrow> None
               | Some ets \<Rightarrow>
                   let s2 = s1\<lparr>filesToRemove := ftr, expotimes := ets\<rparr>;
                       s3 = (if feq (ets ! index) (Fin (- 1))
                             then s2\<lparr>filesLackingExif :=
                                      filesLackingExif s2 @ [''<li>'' @ fileName ext fname @ ''</li>'']\<rparr>
                             else s2)
                   in Some (emit Processed (emit (FileLoaded index fname (ets ! index)) s3))))"

text \<open>
  \<^verbatim>\<open>mdrReady\<close>: a wide-range image arrives. The frame's channels are \<open>R, G, B\<close>.
\<close>

definition mdrReady ::
  "Loader \<Rightarrow> Frame \<Rightarrow> nat \<Rightarrow> cfloat \<Rightarrow> string \<Rightarrow> HdrCreationManager \<Rightarrow> HdrCreationManager option" where
  "mdrReady ext newFrame index expotime newfname s =
    (if m_loadingError s then Some (emit Processed s)
     else
       let R = chanX newFrame; G = chanY newFrame; B = chanZ newFrame in
       if inputType s = LDR_INPUT_TYPE then
         Some (emit (ErrorWhileLoading (''The image '' @ newfname @
                       '' is an 8 bit format (LDR) while the previous ones are not.''))
                 (s\<lparr>m_loadingError := True\<rparr>))
       else
         let s1 = s\<lparr>inputType := MDR_INPUT_TYPE\<rparr> in
         case mdrsHaveSameSize s1 (cols R) (rows R) of
           None \<Rightarrow> None
         | Some False \<Rightarrow>
             Some (emit (ErrorWhileLoading (''The image '' @ newfname @ '' has an invalid size.''))
                     (s1\<lparr>m_loadingError := True\<rparr>))
         | Some True \<Rightarrow>
             (case (if fromCommandLine s1 then Some s1
                    else case (storeAt (mdrImagesList s1) index (Some (fromHDRPFStoQImage ext newFrame)),
                               storeAt (antiGhostingMasksList s1) index
                                 (Some (transparentMask (cols R) (rows R)))) of
                           (Some imgs, Some masks) \<Rightarrow>
                             Some (s1\<lparr>mdrImagesList := imgs, antiGhostingMasksList := masks\<rparr>)
                         | _ \<Rightarrow> None) of
                None \<Rightarrow> None
              | Some s2 \<Rightarrow>
                  (case (storeAt (listmdrR s2) index (Some R),
                         storeAt (listmdrG s2) index (Some G),
                         storeAt (listmdrB s2) index (Some B)) of
                     (Some lR, Some lG, Some lB) \<Rightarrow>
                       newResult ext index expotime newfname
                         (s2\<lparr>m_mdrWidth := cols R, m_mdrHeight := rows R,
                             listmdrR := lR, listmdrG := lG, listmdrB := lB\<rparr>)
                   | _ \<Rightarrow> None)))"

text \<open>\<^verbatim>\<open>ldrReady\<close>: an eight-bit image arrives.\<close>

definition ldrReady ::
  "Loader \<Rightarrow> QImage \<Rightarrow> nat \<Rightarrow> cfloat \<Rightarrow> string \<Rightarrow> bool \<Rightarrow> HdrCreationManager \<Rightarrow>
   HdrCreationManager option" where
  "ldrReady ext newImage index expotime newfname ldrtiff s =
    (if m_loadingError s then Some (emit Processed s)
     else if inputType s = MDR_INPUT_TYPE then
       Some (emit (ErrorWhileLoading (''The image '' @ newfname @
                     '' is an 16 bit format while the previous ones are not.''))
               (s\<lparr>m_loadingError := True\<rparr>))
     else
       let s1 = s\<lparr>inputType := LDR_INPUT_TYPE\<rparr> in
       if \<not> ldrsHaveSameSize s1 (qwidth newImage) (qheight newImage) then
         Some (emit (ErrorWhileLoading (''The image '' @ newfname @ '' has an invalid size.''))
                 (s1\<lparr>m_loadingError := True\<rparr>))
       else
         case storeAt (ldrImagesList s1) index (Some newImage) of
           None \<Rightarrow> None
         | Some imgs \<Rightarrow>
             let s2 = s1\<lparr>ldrImagesList := imgs\<rparr> in
             (case (if fromCommandLine s2 then Some s2
                    else case storeAt (antiGhostingMasksList s2) index
                                (Some (transparentMask (qwidth newImage) (qheight newImage))) of
                           None \<Rightarrow> None
                         | Some masks \<Rightarrow> Some (s2\<lparr>antiGhostingMasksList := masks\<rparr>)) of
                None \<Rightarrow> None
              | Some s3 \<Rightarrow> newResult ext index expotime newfname s3))"

subsection \<open>Normalisation of the exposure values\<close>

text \<open>
  \<^verbatim>\<open>checkEVvalues\<close>. The first loop computes \<open>max\<close> and \<open>min\<close> (starting from \<open>-20\<close>
  and \<open>+20\<close>); the loop of the branch taken rewrites every exposure time and emits
  \<^verbatim>\<open>expotimeValueChanged\<close>. \<open>None\<close> when \<open>expotimes\<close> is shorter than \<open>fileList\<close>.
\<close>

definition evRange :: "cfloat list \<Rightarrow> nat \<Rightarrow> cfloat \<times> cfloat" where
  "evRange ets n =
    foldl (\<lambda>(mx, mn) i.
        let ev_val = log2f (ets ! i);
            mx1 = (if fgt ev_val mx then ev_val else mx);
            mn1 = (if flt ev_val mn then ev_val else mn)
        in (mx1, mn1))
      (Fin (- 20), Fin 20) [0..<n]"

definition shiftEVs :: "cfloat \<Rightarrow> nat \<Rightarrow> HdrCreationManager \<Rightarrow> HdrCreationManager" where
  "shiftEVs offset n s =
    foldl (\<lambda>s i.
        let new_ev = fsub (log2f (expotimes s ! i)) offset in
        emit (ExpotimeValueChanged (exp2f new_ev) i)
          (s\<lparr>expotimes := (expotimes s)[i := exp2f new_ev]\<rparr>))
      s [0..<n]"

definition checkEVvalues :: "HdrCreationManager \<Rightarrow> HdrCreationManager option" where
  "checkEVvalues s =
    (let n = length (fileList s) in
     if length (expotimes s) < n then None
     else case evRange (expotimes s) n of (mx, mn) \<Rightarrow>
       if fgt mx (Fin 10) then Some (shiftEVs (fsub mx (Fin 10)) n s)
       else if flt mn (Fin (- 10)) then Some (shiftEVs (fadd mn (Fin 10)) n s)
       else Some s)"

subsection \<open>Anti-ghosting\<close>

text \<open>A loop whose body may fail: the first failure ends it.\<close>

fun foldOpt :: "('s \<Rightarrow> 'a \<Rightarrow> 's option) \<Rightarrow> 'a list \<Rightarrow> 's \<Rightarrow> 's option" where
  "foldOpt f [] s = Some s"
| "foldOpt f (x # xs) s = (case f s x of None \<Rightarrow> None | Some s1 \<Rightarrow> foldOpt f xs s1)"

text \<open>
  The dereference \<^verbatim>\<open>*xs[i]\<close> of an entry of a list of pointers: \<open>None\<close> outside the list
  and on a null pointer.
\<close>

definition ptrAt :: "'a option list \<Rightarrow> int \<Rightarrow> 'a option" where
  "ptrAt xs i = (if 0 \<le> i \<and> nat i < length xs then xs ! nat i else None)"

text \<open>
  The body of the loop of \<^verbatim>\<open>doAntiGhosting\<close> on eight-bit images, for the index
  \<open>idx\<close>: the image \<open>idx\<close> is blended with the good image and stored back.
\<close>

definition blendStepLDR ::
  "QtColor \<Rightarrow> int \<Rightarrow> HdrCreationManager \<Rightarrow> nat \<Rightarrow> HdrCreationManager option" where
  "blendStepLDR qt goodImageIndex s idx =
    (if int idx \<noteq> goodImageIndex then
       (case (ptrAt (ldrImagesList s) (int idx), ptrAt (ldrImagesList s) goodImageIndex,
              ptrAt (antiGhostingMasksList s) (int idx),
              ptrAt (antiGhostingMasksList s) goodImageIndex) of
          (Some img1, Some img2, Some maskImg, Some maskGoodImage) \<Rightarrow>
            Some (s\<lparr>ldrImagesList :=
                      (ldrImagesList s)[idx := Some (blendLDR qt img1 img2 maskImg maskGoodImage)]\<rparr>)
        | _ \<Rightarrow> None)
     else Some s)"

text \<open>The body of the loop of \<^verbatim>\<open>doAntiGhosting\<close> on float planes.\<close>

definition blendStepMDR :: "int \<Rightarrow> HdrCreationManager \<Rightarrow> nat \<Rightarrow> HdrCreationManager option" where
  "blendStepMDR goodImageIndex s idx =
    (if int idx \<noteq> goodImageIndex then
       (case (ptrAt (listmdrR s) (int idx), ptrAt (listmdrG s) (int idx),
              ptrAt (listmdrB s) (int idx)) of
          (Some R1, Some G1, Some B1) \<Rightarrow>
            (case (ptrAt (listmdrR s) goodImageIndex, ptrAt (listmdrG s) goodImageIndex,
                   ptrAt (listmdrB s) goodImageIndex) of
               (Some R2, Some G2, Some B2) \<Rightarrow>
                 (case (ptrAt (antiGhostingMasksList s) (int idx),
                        ptrAt (antiGhostingMasksList s) goodImageIndex) of
                    (Some maskImg, Some maskGoodImage) \<Rightarrow>
                      (case blend (R1, G1, B1) R2 G2 B2 maskImg maskGoodImage of
                         (R1a, G1a, B1a) \<Rightarrow>
                           Some (s\<lparr>listmdrR := (listmdrR s)[idx := Some R1a],
                                   listmdrG := (listmdrG s)[idx := Some G1a],
                                   listmdrB := (listmdrB s)[idx := Some B1a]\<rparr>))
                  | _ \<Rightarrow> None)
             | _ \<Rightarrow> None)
        | _ \<Rightarrow> None)
     else Some s)"

text \<open>\<^verbatim>\<open>doAntiGhosting(goodImageIndex)\<close>.\<close>

definition doAntiGhosting :: "QtColor \<Rightarrow> int \<Rightarrow> HdrCreationManager \<Rightarrow> HdrCreationManager option" where
  "doAntiGhosting qt goodImageIndex s =
    (if inputType s = LDR_INPUT_TYPE then
       foldOpt (blendStepLDR qt goodImageIndex) [0..<length (ldrImagesList s)] s
     else
       foldOpt (blendStepMDR goodImageIndex) [0..<length (listmdrR s)] s)"

text \<open>
  All of the first \<open>n\<close> pointers of a list dereferenced: \<open>None\<close> when the list is shorter
  (\<^verbatim>\<open>.at(i)\<close> throws) or holds a null pointer among them.
\<close>

definition derefAll :: "nat \<Rightarrow> 'a option list \<Rightarrow> 'a list option" where
  "derefAll n ptrs = (if length ptrs < n then None else those (take n ptrs))"

text \<open>The reference exposure: \<^verbatim>\<open>findIndex(HE, size)\<close> on the hue scores.\<close>

definition referenceIndexMDR :: "Array2Df list \<Rightarrow> Array2Df list \<Rightarrow> Array2Df list \<Rightarrow> nat option" where
  "referenceIndexMDR listR listG listB =
    findIndex (map (hueSquaredMean listR listG listB) [0..<length listR])"

text \<open>
  \<^verbatim>\<open>doAutoAntiGhostingMDR(threshold)\<close>. \<open>None\<close> stands for the exception of \<^verbatim>\<open>.at\<close>
  (on an empty list, or at the index \<open>size\<close> that \<^verbatim>\<open>findIndex\<close> answers when no score
  equals the maximum) and for a null pointer.
\<close>

definition doAutoAntiGhostingMDR :: "cfloat \<Rightarrow> HdrCreationManager \<Rightarrow> HdrCreationManager option" where
  "doAutoAntiGhostingMDR threshold s =
    (let size = length (listmdrR s) in
     case (derefAll size (listmdrR s), derefAll size (listmdrG s), derefAll size (listmdrB s)) of
       (Some listR, Some listG, Some listB) \<Rightarrow>
         (case listR of
            [] \<Rightarrow> None
          | R0 # rest \<Rightarrow>
              let width = cols R0;
                  height = rows R0;
                  gridX = width div gridSize;
                  gridY = height div gridSize;
                  avgLightness = map (\<lambda>i. averageLightness (listR ! i) (listG ! i) (listB ! i)) [0..<size]
              in case referenceIndexMDR listR listG listB of
                   None \<Rightarrow> None
                 | Some h0 \<Rightarrow>
                     if size \<le> h0 \<or> (1 < size \<and> length (expotimes s) < size) then None
                     else
                       let scaleFactor = map (\<lambda>i. fdiv (avgLightness ! i) (avgLightness ! h0)) [0..<size];
                           patches = flagPatchesMDR threshold listR listG listB (expotimes s) h0 gridX gridY
                       in case copyPatches (listR, listG, listB) patches h0 scaleFactor gridX gridY of
                            (listR1, listG1, listB1) \<Rightarrow>
                              Some (s\<lparr>listmdrR := map Some listR1,
                                      listmdrG := map Some listG1 @ drop size (listmdrG s),
                                      listmdrB := map Some listB1 @ drop size (listmdrB s)\<rparr>))
     | _ \<Rightarrow> None)"

definition referenceIndexLDR :: "QtColor \<Rightarrow> QImage list \<Rightarrow> nat option" where
  "referenceIndexLDR qt list = findIndex (map (hueSquaredMeanLDR qt list) [0..<length list])"

definition doAutoAntiGhostingLDR :: "QtColor \<Rightarrow> cfloat \<Rightarrow> HdrCreationManager \<Rightarrow> HdrCreationManager option" where
  "doAutoAntiGhostingLDR qt threshold s =
    (let size = length (ldrImagesList s) in
     case derefAll size (ldrImagesList s) of
       None \<Rightarrow> None
     | Some list \<Rightarrow>
         (case list of
            [] \<Rightarrow> None
          | img0 # rest \<Rightarrow>
              let width = qwidth img0;
                  height = qheight img0;
                  gridX = width div gridSize;
                  gridY = height div gridSize;
                  avgLightness = map (\<lambda>i. averageLightnessLDR qt (list ! i)) [0..<size]
              in case referenceIndexLDR qt list of
                   None \<Rightarrow> None
                 | Some h0 \<Rightarrow>
                     if size \<le> h0 \<or> (1 < size \<and> length (expotimes s) < size) then None
                     else
                       let scaleFactor = map (\<lambda>i. fdiv (avgLightness ! i) (avgLightness ! h0)) [0..<size];
                           patches = flagPatchesLDR qt threshold list (expotimes s) h0 gridX gridY
                       in Some (s\<lparr>ldrImagesList :=
                                   map Some (copyPatchesLDR qt list patches h0 scaleFactor gridX gridY)\<rparr>)))"

definition doAutoAntiGhosting :: "QtColor \<Rightarrow> cfloat \<Rightarrow> HdrCreationManager \<Rightarrow> HdrCreationManager option" where
  "doAutoAntiGhosting qt threshold s =
    (if inputType s = LDR_INPUT_TYPE then doAutoAntiGhostingLDR qt threshold s
     else doAutoAntiGhostingMDR threshold s)"

subsection \<open>The constructor\<close>

text \<open>\<^verbatim>\<open>HdrCreationManager(fromCommandLine)\<close>: every container starts empty.\<close>

definition newManager :: "bool \<Rightarrow> HdrCreationManager" where
  "newManager fcl =
    \<lparr>m_data = [], inputType = UNKNOWN_INPUT_TYPE, m_loadingError = False,
     m_runningThreads = 0, m_processedFiles = 0, fromCommandLine = fcl,
     m_mdrWidth = 0, m_mdrHeight = 0, fileList = [], expotimes = [],
     filesToRemove = [], filesLackingExif = [], ldrImagesList = [], mdrImagesList = [],
     antiGhostingMasksList = [], listmdrR = [], listmdrG = [], listmdrB = [], emitted = []\<rparr>"

section \<open>Notions used in the statements\<close>

subsection \<open>Exposure values\<close>


definition knownTime :: "cfloat \<Rightarrow> bool" where
  "knownTime t = (is_fin t \<and> 0 < real_of t)"








text \<open>
  Two batches: three files with the exposure values 11, unknown and 0, and two files with
  the exposure values 11 and -10.
\<close>

definition batchMixed :: HdrCreationManager where
  "batchMixed = (newManager False)\<lparr>fileList := [''a.tif'', ''b.tif'', ''c.tif''],
                                    expotimes := [Fin 2048, Fin (- 1), Fin 1]\<rparr>"


subsection \<open>Ghost detection\<close>

text \<open>
  Exposure \<open>h\<close> is ghosted against the reference \<open>h0\<close> in cell \<open>c\<close>: what
  \<^verbatim>\<open>comparePatches\<close> answers for the pair in the detection loop.
\<close>

definition ghosted ::
  "cfloat \<Rightarrow> Array2Df list \<Rightarrow> Array2Df list \<Rightarrow> Array2Df list \<Rightarrow> cfloat list \<Rightarrow>
   nat \<Rightarrow> nat \<Rightarrow> nat \<Rightarrow> nat \<Rightarrow> nat \<times> nat \<Rightarrow> bool" where
  "ghosted threshold listR listG listB ets h0 gridX gridY h c =
     comparePatches (listR ! h0) (listG ! h0) (listB ! h0) (listR ! h) (listG ! h) (listB ! h)
        (fst c) (snd c) gridX gridY threshold (fsub (logf (ets ! h0)) (logf (ets ! h)))"

definition zeroOrNaN :: "cfloat \<Rightarrow> bool" where
  "zeroOrNaN x = (x = Fin 0 \<or> x = NaN)"

subsection \<open>Hue scores\<close>




text \<open>
  Every sample the hue scores read is finite and of magnitude at most \<open>2 ^ 126\<close>, so that
  no sum or difference of two samples overflows. The hue that Qt reports for a pixel is
  a number between \<open>-1\<close> (no hue) and \<open>1\<close>.
\<close>

definition boundedBy :: "real \<Rightarrow> cfloat \<Rightarrow> bool" where
  "boundedBy B c = (is_fin c \<and> \<bar>real_of c\<bar> \<le> B)"

definition boundedPlanes :: "Array2Df list \<Rightarrow> Array2Df list \<Rightarrow> Array2Df list \<Rightarrow> bool" where
  "boundedPlanes listR listG listB =
     (\<forall>w<length listR. \<forall>i<cols (listR ! 0). \<forall>j<rows (listR ! 0).
         boundedBy (2 ^ 126) (at2 (listR ! w) i j) \<and> boundedBy (2 ^ 126) (at2 (listG ! w) i j)
         \<and> boundedBy (2 ^ 126) (at2 (listB ! w) i j))"

definition boundedHues :: "QtColor \<Rightarrow> bool" where
  "boundedHues qt = (\<forall>p. boundedBy 1 (qt_hueF qt p))"


subsection \<open>Ghost correction\<close>

text \<open>
  Pixel \<open>(x, y)\<close> lies in grid cell \<open>(i, j)\<close>. The reference cell is saturated when its
  average lightness is at least the largest lightness or at most zero: on float planes
  with the ceiling \<open>max_lightness\<close>, on eight-bit images with the ceiling 255. A pixel is
  kept when every flagged cell it lies in is saturated in the reference.
\<close>

definition inCell :: "nat \<Rightarrow> nat \<Rightarrow> nat \<Rightarrow> nat \<Rightarrow> nat \<Rightarrow> nat \<Rightarrow> bool" where
  "inCell gridX gridY i j x y =
    (i * gridX \<le> x \<and> x < (i + 1) * gridX \<and> j * gridY \<le> y \<and> y < (j + 1) * gridY)"

definition saturated :: "Array2Df \<Rightarrow> Array2Df \<Rightarrow> Array2Df \<Rightarrow> nat \<Rightarrow> nat \<Rightarrow> nat \<Rightarrow> nat \<Rightarrow> bool" where
  "saturated R1 G1 B1 i j gridX gridY =
    (fge (cellLightness R1 G1 B1 i j gridX gridY) max_lightness
     \<or> fle (cellLightness R1 G1 B1 i j gridX gridY) (Fin 0))"

definition saturatedLDR :: "QtColor \<Rightarrow> QImage \<Rightarrow> nat \<Rightarrow> nat \<Rightarrow> nat \<Rightarrow> nat \<Rightarrow> bool" where
  "saturatedLDR qt image1 i j gridX gridY =
    (fge (cellLightnessLDR qt image1 i j gridX gridY) (Fin 255)
     \<or> fle (cellLightnessLDR qt image1 i j gridX gridY) (Fin 0))"

definition keptPixel ::
  "(nat \<times> nat \<Rightarrow> bool) \<Rightarrow> Array2Df \<Rightarrow> Array2Df \<Rightarrow> Array2Df \<Rightarrow> nat \<Rightarrow> nat \<Rightarrow> nat \<Rightarrow> nat \<Rightarrow> bool" where
  "keptPixel patches R1 G1 B1 gridX gridY x y =
    (\<forall>i<gridSize. \<forall>j<gridSize.
        patches (i, j) \<and> inCell gridX gridY i j x y \<longrightarrow> saturated R1 G1 B1 i j gridX gridY)"

definition keptPixelLDR ::
  "QtColor \<Rightarrow> (nat \<times> nat \<Rightarrow> bool) \<Rightarrow> QImage \<Rightarrow> nat \<Rightarrow> nat \<Rightarrow> nat \<Rightarrow> nat \<Rightarrow> bool" where
  "keptPixelLDR qt patches image1 gridX gridY x y =
    (\<forall>i<gridSize. \<forall>j<gridSize.
        patches (i, j) \<and> inCell gridX gridY i j x y \<longrightarrow> saturatedLDR qt image1 i j gridX gridY)"

text \<open>The three planes of an exposure have the same samples at \<open>(x, y)\<close> in two sets of lists.\<close>

definition samePixel ::
  "Array2Df list \<times> Array2Df list \<times> Array2Df list \<Rightarrow> Array2Df list \<times> Array2Df list \<times> Array2Df list \<Rightarrow>
   nat \<Rightarrow> nat \<Rightarrow> nat \<Rightarrow> bool" where
  "samePixel planes1 planes h x y =
    (case planes1 of (listR1, listG1, listB1) \<Rightarrow> case planes of (listR, listG, listB) \<Rightarrow>
       at2 (listR1 ! h) x y = at2 (listR ! h) x y \<and>
       at2 (listG1 ! h) x y = at2 (listG ! h) x y \<and>
       at2 (listB1 ! h) x y = at2 (listB ! h) x y)"

text \<open>Every plane of the three lists is \<open>W\<close> samples wide.\<close>

definition planesWide :: "nat \<Rightarrow> Array2Df list \<times> Array2Df list \<times> Array2Df list \<Rightarrow> bool" where
  "planesWide W planes =
    (case planes of (listR, listG, listB) \<Rightarrow>
       length listG = length listR \<and> length listB = length listR \<and>
       list_all (\<lambda>A. cols A = W) listR \<and> list_all (\<lambda>A. cols A = W) listG \<and>
       list_all (\<lambda>A. cols A = W) listB)"

text \<open>Exposure \<open>h\<close> is the same in two sets of lists.\<close>

definition sameExposure ::
  "Array2Df list \<times> Array2Df list \<times> Array2Df list \<Rightarrow> Array2Df list \<times> Array2Df list \<times> Array2Df list \<Rightarrow>
   nat \<Rightarrow> bool" where
  "sameExposure planes1 planes h =
    (case planes1 of (listR1, listG1, listB1) \<Rightarrow> case planes of (listR, listG, listB) \<Rightarrow>
       listR1 ! h = listR ! h \<and> listG1 ! h = listG ! h \<and> listB1 ! h = listB ! h)"

text \<open>
  The invariants of the correction loops, for a pixel \<open>(x, y)\<close>: the planes keep their
  width and the sample at the pixel (\<open>keeps\<close>); the lists keep their lengths, the
  reference exposure and, in every exposure, the width and the samples at the pixel
  (\<open>corrInv\<close>, and \<open>corrInvLDR\<close> on eight-bit images).
\<close>

definition keeps :: "nat \<Rightarrow> nat \<Rightarrow> nat \<Rightarrow> Array2Df \<times> Array2Df \<times> Array2Df \<Rightarrow> Array2Df \<times> Array2Df \<times> Array2Df \<Rightarrow> bool" where
  "keeps W x y RGB RGB1 =
    (case RGB of (R2, G2, B2) \<Rightarrow> case RGB1 of (R3, G3, B3) \<Rightarrow>
       cols R3 = W \<and> cols G3 = W \<and> cols B3 = W \<and>
       at2 R3 x y = at2 R2 x y \<and> at2 G3 x y = at2 G2 x y \<and> at2 B3 x y = at2 B2 x y)"

definition corrInv ::
  "nat \<Rightarrow> nat \<Rightarrow> nat \<Rightarrow> nat \<Rightarrow> Array2Df list \<times> Array2Df list \<times> Array2Df list \<Rightarrow>
   Array2Df list \<times> Array2Df list \<times> Array2Df list \<Rightarrow> bool" where
  "corrInv W x y h0 planes0 planes =
    (case planes0 of (listR, listG, listB) \<Rightarrow> case planes of (listR1, listG1, listB1) \<Rightarrow>
       length listR1 = length listR \<and> length listG1 = length listR \<and> length listB1 = length listR \<and>
       listR1 ! h0 = listR ! h0 \<and> listG1 ! h0 = listG ! h0 \<and> listB1 ! h0 = listB ! h0 \<and>
       (\<forall>h<length listR.
          cols (listR1 ! h) = W \<and> cols (listG1 ! h) = W \<and> cols (listB1 ! h) = W \<and>
          at2 (listR1 ! h) x y = at2 (listR ! h) x y \<and>
          at2 (listG1 ! h) x y = at2 (listG ! h) x y \<and>
          at2 (listB1 ! h) x y = at2 (listB ! h) x y))"

definition corrInvLDR :: "nat \<Rightarrow> nat \<Rightarrow> nat \<Rightarrow> QImage list \<Rightarrow> QImage list \<Rightarrow> bool" where
  "corrInvLDR x y h0 list0 list1 =
    (length list1 = length list0 \<and> list1 ! h0 = list0 ! h0 \<and>
     (\<forall>h<length list0. qpixel (list1 ! h) x y = qpixel (list0 ! h) x y))"

subsection \<open>Blending\<close>

text \<open>
  What \<^verbatim>\<open>doAntiGhosting\<close> keeps of a state: the images at the good index, the masks, and
  the lengths of the image lists.
\<close>

definition sameGood :: "int \<Rightarrow> HdrCreationManager \<Rightarrow> HdrCreationManager \<Rightarrow> bool" where
  "sameGood g s s1 =
    (ptrAt (ldrImagesList s1) g = ptrAt (ldrImagesList s) g \<and>
     ptrAt (listmdrR s1) g = ptrAt (listmdrR s) g \<and>
     ptrAt (listmdrG s1) g = ptrAt (listmdrG s) g \<and>
     ptrAt (listmdrB s1) g = ptrAt (listmdrB s) g \<and>
     antiGhostingMasksList s1 = antiGhostingMasksList s \<and>
     length (ldrImagesList s1) = length (ldrImagesList s) \<and>
     length (listmdrR s1) = length (listmdrR s))"

text \<open>
  The pointers \<^verbatim>\<open>doAntiGhosting\<close> dereferences on float planes are valid: the good index
  is inside the lists and the first \<open>n\<close> entries of every list are not null.
\<close>

definition allSet :: "nat \<Rightarrow> 'a option list \<Rightarrow> bool" where
  "allSet n ptrs = (n \<le> length ptrs \<and> list_all (\<lambda>p. p \<noteq> None) (take n ptrs))"

definition validMDR :: "int \<Rightarrow> HdrCreationManager \<Rightarrow> bool" where
  "validMDR g s =
    (0 \<le> g \<and> nat g < length (listmdrR s) \<and>
     allSet (length (listmdrR s)) (listmdrR s) \<and>
     allSet (length (listmdrR s)) (listmdrG s) \<and>
     allSet (length (listmdrR s)) (listmdrB s) \<and>
     allSet (length (listmdrR s)) (antiGhostingMasksList s))"

section \<open>Examples\<close>

text \<open>A plane of constant samples, and an image of constant pixels.\<close>

definition constPlane :: "nat \<Rightarrow> nat \<Rightarrow> real \<Rightarrow> Array2Df" where
  "constPlane w h c = \<lparr>cols = w, rows = h, elems = replicate (w * h) (Fin c)\<rparr>"

definition constImage :: "nat \<Rightarrow> nat \<Rightarrow> 32 word \<Rightarrow> QImage" where
  "constImage w h p = \<lparr>qwidth = w, qheight = h, qbits = replicate (w * h) p\<rparr>"

definition greyFrame :: "nat \<Rightarrow> nat \<Rightarrow> real \<Rightarrow> Frame" where
  "greyFrame w h c = \<lparr>chanX = constPlane w h c, chanY = constPlane w h c, chanZ = constPlane w h c\<rparr>"

text \<open>Stand-ins for the collaborators: a reader that always fails, and trivial colour conversions.\<close>

definition failingLoader :: Loader where
  "failingLoader =
    \<lparr>readFrame = (\<lambda>path. None), getAverageLuminance = (\<lambda>path. None),
     convertSample = (\<lambda>x. 0), isValid = (\<lambda>item. False),
     fromHDRPFStoQImage = (\<lambda>f. constImage 0 0 0), fileName = (\<lambda>path. path)\<rparr>"

definition plainQt :: QtColor where
  "plainQt =
    \<lparr>qt_hueF = (\<lambda>p. Fin 0), qt_value = (\<lambda>p. 0),
     qt_getRgbF = (\<lambda>p. (Fin 0, Fin 0, Fin 0)), qt_getHsvF = (\<lambda>p. (Fin 0, Fin 0, Fin 0)),
     qt_fromHsvF = (\<lambda>h s v. 0)\<rparr>"

text \<open>
  Two files were requested from the command line; the first, an eight-bit image, has been
  accepted (\<open>ldrAccepted\<close>), or the first, a wide-range image, has (\<open>mdrAccepted\<close>).
\<close>

definition twoRequested :: HdrCreationManager where
  "twoRequested =
    (newManager True)\<lparr>fileList := [''a.jpg'', ''b.tif''], expotimes := [Fin (- 1), Fin (- 1)],
       filesToRemove := [[], []], ldrImagesList := [None, None],
       listmdrR := [None, None], listmdrG := [None, None], listmdrB := [None, None]\<rparr>"

definition ldrAccepted :: HdrCreationManager where
  "ldrAccepted =
    twoRequested\<lparr>inputType := LDR_INPUT_TYPE, m_runningThreads := - 1, m_processedFiles := 1,
       expotimes := [Fin (1/60), Fin (- 1)],
       ldrImagesList := [Some (constImage 1 1 0xFF808080), None],
       emitted := [FileLoaded 0 ''a.jpg'' (Fin (1/60)), Processed]\<rparr>"

definition mdrAccepted :: HdrCreationManager where
  "mdrAccepted =
    twoRequested\<lparr>inputType := MDR_INPUT_TYPE, m_runningThreads := - 1, m_processedFiles := 1,
       m_mdrWidth := 1, m_mdrHeight := 1,
       expotimes := [Fin (1/60), Fin (- 1)],
       listmdrR := [Some (constPlane 1 1 300), None],
       listmdrG := [Some (constPlane 1 1 300), None],
       listmdrB := [Some (constPlane 1 1 300), None],
       emitted := [FileLoaded 0 ''a.jpg'' (Fin (1/60)), Processed]\<rparr>"

text \<open>A set that already holds the item of \<open>a.tif\<close>.\<close>

definition oneLoaded :: HdrCreationManager where
  "oneLoaded = (newManager False)\<lparr>m_data := [newItem ''a.tif'']\<rparr>"

text \<open>
  Two wide-range exposures of one pixel each, with their masks; the mask of the first is
  opaque at that pixel.
\<close>

definition twoExposures :: HdrCreationManager where
  "twoExposures =
    (newManager False)\<lparr>inputType := MDR_INPUT_TYPE,
       fileList := [''a.tif'', ''b.tif''], expotimes := [Fin 1, Fin 2],
       listmdrR := [Some (constPlane 1 1 100), Some (constPlane 1 1 200)],
       listmdrG := [Some (constPlane 1 1 100), Some (constPlane 1 1 200)],
       listmdrB := [Some (constPlane 1 1 100), Some (constPlane 1 1 200)],
       antiGhostingMasksList := [Some (constImage 1 1 0xFF000000), Some (constImage 1 1 0)]\<rparr>"







text \<open>
  Two grey wide-range exposures of \<open>w\<close> by \<open>h\<close> pixels with exposure times 1 and 2, and
  two grey eight-bit exposures of 10 by 10 pixels.
\<close>

definition greyPair :: "nat \<Rightarrow> nat \<Rightarrow> Array2Df list" where
  "greyPair w h = [constPlane w h 100, constPlane w h 200]"

definition greySet :: "nat \<Rightarrow> nat \<Rightarrow> HdrCreationManager" where
  "greySet w h =
    (newManager False)\<lparr>inputType := MDR_INPUT_TYPE,
       fileList := [''a.tif'', ''b.tif''], expotimes := [Fin 1, Fin 2],
       listmdrR := map Some (greyPair w h), listmdrG := map Some (greyPair w h),
       listmdrB := map Some (greyPair w h)\<rparr>"

definition greyImages :: "QImage list" where
  "greyImages = [constImage 10 10 0xFF808080, constImage 10 10 0xFF404040]"

definition greySetLDR :: HdrCreationManager where
  "greySetLDR =
    (newManager False)\<lparr>inputType := LDR_INPUT_TYPE,
       fileList := [''a.jpg'', ''b.jpg''], expotimes := [Fin 1, Fin 2],
       ldrImagesList := map Some greyImages\<rparr>"

section \<open>Rounding to single precision: properties\<close>

text \<open>
  Rounding is monotone, keeps the sign, and is exact on the values it can represent. The
  lemmas \<open>f32_lo\<close> and \<open>f32_hi\<close> compute the rounding of a given number from its exponent
  and the integer nearest to its scaled value.
\<close>

lemma rne_of_int [simp]: "rne (of_int n) = n"
  by (simp add: rne_def)

lemma rne_0 [simp]: "rne 0 = 0"
  by (simp add: rne_def)

lemma rne_cases: "rne x = \<lfloor>x\<rfloor> \<or> rne x = \<lfloor>x\<rfloor> + 1"
  by (simp add: rne_def Let_def)

lemma rne_floor_half: "x - of_int \<lfloor>x\<rfloor> < 1/2 \<Longrightarrow> rne x = \<lfloor>x\<rfloor>"
  by (simp add: rne_def Let_def)

lemma rne_ceil_half: "1/2 < x - of_int \<lfloor>x\<rfloor> \<Longrightarrow> rne x = \<lfloor>x\<rfloor> + 1"
  by (simp add: rne_def Let_def)

lemma rne_mono:
  assumes "x \<le> y"
  shows "rne x \<le> rne y"
proof (cases "\<lfloor>x\<rfloor> = \<lfloor>y\<rfloor>")
  case False
  then have "\<lfloor>x\<rfloor> < \<lfloor>y\<rfloor>" using floor_mono[OF assms] by simp
  then have "\<lfloor>x\<rfloor> + 1 \<le> \<lfloor>y\<rfloor>" by simp
  moreover have "rne x \<le> \<lfloor>x\<rfloor> + 1" using rne_cases[of x] by auto
  moreover have "\<lfloor>y\<rfloor> \<le> rne y" using rne_cases[of y] by auto
  ultimately show ?thesis by linarith
next
  case True
  have d: "x - of_int \<lfloor>x\<rfloor> \<le> y - of_int \<lfloor>y\<rfloor>" using assms True by simp
  show ?thesis
    using d True unfolding rne_def Let_def by auto
qed

lemma rne_nonneg: "0 \<le> x \<Longrightarrow> 0 \<le> rne x"
  using rne_mono[of 0 x] rne_of_int[of 0] by simp


lemma rne_eq:
  assumes "2 * \<bar>x - of_int n\<bar> < 1 \<or> (2 * \<bar>x - of_int n\<bar> = 1 \<and> even n)"
  shows "rne x = n"
proof (cases "of_int n \<le> x")
  case True
  then have "\<lfloor>x\<rfloor> = n" using assms by (intro floor_unique) auto
  then show ?thesis using assms True by (auto simp: rne_def Let_def)
next
  case False
  then have f: "\<lfloor>x\<rfloor> = n - 1" using assms by (intro floor_unique) auto
  have "odd (n - 1)" if "even n" using that by simp
  then show ?thesis using assms False f by (auto simp: rne_def Let_def)
qed

lemma log2_bounds:
  assumes "0 < x"
  shows "2 powr of_int \<lfloor>log 2 x\<rfloor> \<le> x" "x < 2 powr of_int (\<lfloor>log 2 x\<rfloor> + 1)"
  using floor_log_eq_powr_iff[of x 2 "\<lfloor>log 2 x\<rfloor>"] assms by simp_all

lemma f32exp_upper:
  assumes "0 < x"
  shows "x < 2 powr of_int (f32exp x + 1)"
proof -
  have "x < 2 powr of_int (\<lfloor>log 2 x\<rfloor> + 1)" by (rule log2_bounds[OF assms])
  also have "\<dots> \<le> 2 powr of_int (f32exp x + 1)"
    by (intro powr_mono) (simp_all add: f32exp_def)
  finally show ?thesis .
qed

lemma f32exp_normal:
  assumes "2 powr (- 126) \<le> x"
  shows "f32exp x = \<lfloor>log 2 x\<rfloor>" "2 powr of_int (f32exp x) \<le> x"
proof -
  have "0 < (2::real) powr (- 126)" by simp
  then have x: "0 < x" using assms by linarith
  have "log 2 (2 powr (- 126)) \<le> log 2 x"
    using assms by (intro log_mono) simp_all
  then have "- 126 \<le> log 2 x" by simp
  then have "- 126 \<le> \<lfloor>log 2 x\<rfloor>" by (simp add: le_floor_iff)
  then show e: "f32exp x = \<lfloor>log 2 x\<rfloor>" by (simp add: f32exp_def)
  show "2 powr of_int (f32exp x) \<le> x" unfolding e by (rule log2_bounds[OF x])
qed

lemma f32exp_mono:
  assumes "0 < x" "x \<le> y"
  shows "f32exp x \<le> f32exp y"
proof -
  have "log 2 x \<le> log 2 y" using assms by (intro log_mono) simp_all
  then have "\<lfloor>log 2 x\<rfloor> \<le> \<lfloor>log 2 y\<rfloor>" by (rule floor_mono)
  then show ?thesis by (simp add: f32exp_def)
qed

lemma pow_split: "(2::real) powr (of_int e + 1) = 2 ^ 24 * 2 powr (of_int e - 23)"
proof -
  have "of_int e + 1 = 24 + (of_int e - 23 :: real)" by simp
  then have "(2::real) powr (of_int e + 1) = 2 powr (24 + (of_int e - 23))" by (rule arg_cong)
  also have "\<dots> = 2 powr 24 * 2 powr (of_int e - 23)" by (rule powr_add)
  finally show ?thesis by simp
qed

lemma pow_split': "(2::real) powr (of_int e) = 2 ^ 23 * 2 powr (of_int e - 23)"
proof -
  have "of_int e = 23 + (of_int e - 23 :: real)" by simp
  then have "(2::real) powr (of_int e) = 2 powr (23 + (of_int e - 23))" by (rule arg_cong)
  also have "\<dots> = 2 powr 23 * 2 powr (of_int e - 23)" by (rule powr_add)
  finally show ?thesis by simp
qed

lemma f32mag_nonneg: "0 \<le> x \<Longrightarrow> 0 \<le> f32mag x"
  unfolding f32mag_def Let_def by (intro mult_nonneg_nonneg) (simp_all add: rne_nonneg)

lemma f32mag_upper:
  assumes "0 < x"
  shows "f32mag x \<le> 2 powr of_int (f32exp x + 1)"
proof -
  define q where "q = (2::real) powr (of_int (f32exp x) - 23)"
  have q: "0 < q" by (simp add: q_def)
  have "x < 2 ^ 24 * q" using f32exp_upper[OF assms] by (simp add: pow_split q_def)
  then have "x / q \<le> of_int (2 ^ 24)" using q by (simp add: field_simps)
  then have "rne (x / q) \<le> rne (of_int (2 ^ 24))" by (rule rne_mono)
  then have "rne (x / q) \<le> 2 ^ 24" by (simp only: rne_of_int)
  then have "of_int (rne (x / q)) \<le> (2::real) ^ 24" by (metis of_int_le_iff of_int_numeral of_int_power)
  then have "of_int (rne (x / q)) * q \<le> 2 ^ 24 * q" using q by simp
  then show ?thesis by (simp add: f32mag_def Let_def q_def pow_split)
qed

lemma f32mag_lower:
  assumes "2 powr (- 126) \<le> x"
  shows "2 powr of_int (f32exp x) \<le> f32mag x"
proof -
  define q where "q = (2::real) powr (of_int (f32exp x) - 23)"
  have q: "0 < q" by (simp add: q_def)
  have "2 ^ 23 * q \<le> x" using f32exp_normal(2)[OF assms] by (simp add: pow_split' q_def)
  then have "of_int (2 ^ 23) \<le> x / q" using q by (simp add: field_simps)
  then have "rne (of_int (2 ^ 23)) \<le> rne (x / q)" by (rule rne_mono)
  then have "2 ^ 23 \<le> rne (x / q)" by (simp only: rne_of_int)
  then have "(2::real) ^ 23 \<le> of_int (rne (x / q))" by (metis of_int_le_iff of_int_numeral of_int_power)
  then have "2 ^ 23 * q \<le> of_int (rne (x / q)) * q" using q by simp
  then show ?thesis by (simp add: f32mag_def Let_def q_def pow_split')
qed

lemma f32mag_mono:
  assumes "0 < x" "x \<le> y"
  shows "f32mag x \<le> f32mag y"
proof (cases "f32exp x = f32exp y")
  case True
  define q where "q = (2::real) powr (of_int (f32exp y) - 23)"
  have q: "0 < q" by (simp add: q_def)
  have "x / q \<le> y / q" using assms q by (simp add: divide_right_mono)
  then have "rne (x / q) \<le> rne (y / q)" by (rule rne_mono)
  then have "of_int (rne (x / q)) * q \<le> of_int (rne (y / q)) * q" using q by simp
  then show ?thesis by (simp add: f32mag_def Let_def True q_def)
next
  case False
  then have lt: "f32exp x < f32exp y" using f32exp_mono[OF assms] by simp
  have "- 126 \<le> f32exp x" by (simp add: f32exp_def)
  then have "- 126 < f32exp y" using lt by simp
  then have "- 126 < \<lfloor>log 2 y\<rfloor>" unfolding f32exp_def max_def by (simp split: if_splits)
  then have "- 126 \<le> log 2 y" by linarith
  moreover have y: "0 < y" using assms by simp
  ultimately have "2 powr (- 126) \<le> 2 powr (log 2 y)" by (intro powr_mono) simp_all
  then have n: "2 powr (- 126) \<le> y" using y by simp
  have "f32mag x \<le> 2 powr of_int (f32exp x + 1)" by (rule f32mag_upper[OF assms(1)])
  also have "\<dots> \<le> 2 powr of_int (f32exp y)" using lt by (intro powr_mono) simp_all
  also have "\<dots> \<le> f32mag y" by (rule f32mag_lower[OF n])
  finally show ?thesis .
qed

lemma f32_nonneg:
  assumes "0 \<le> x"
  shows "f32 x = (if 2 ^ 128 \<le> f32mag x then PInf else Fin (f32mag x))"
proof (cases "x = 0")
  case True
  then show ?thesis by (simp add: f32_def f32mag_def Let_def)
next
  case False
  then show ?thesis using assms by (simp add: f32_def Let_def)
qed

lemma f32_0 [simp]: "f32 0 = Fin 0"
  by (simp add: f32_def)

lemma f32_minus: "f32 (- x) = fneg (f32 x)"
  by (simp add: f32_def Let_def)

lemma f32_mono_fin:
  assumes "0 \<le> x" "x \<le> y" "f32 y = Fin b"
  shows "\<exists>a. f32 x = Fin a \<and> 0 \<le> a \<and> a \<le> b"
proof (cases "x = 0")
  case True
  have "0 \<le> f32mag y" using assms by (intro f32mag_nonneg) simp
  then have "0 \<le> b" using assms f32_nonneg[of y] by (auto split: if_splits)
  then show ?thesis using True by (simp add: f32_def)
next
  case False
  then have x: "0 < x" using assms by simp
  have y: "f32mag y = b" "\<not> 2 ^ 128 \<le> f32mag y"
    using assms f32_nonneg[of y] by (auto split: if_splits)
  have "f32mag x \<le> f32mag y" by (rule f32mag_mono[OF x assms(2)])
  then show ?thesis
    using y f32_nonneg[of x] x f32mag_nonneg[of x] by auto
qed

lemma f32_bound:
  assumes "\<bar>x\<bar> \<le> B" "f32 B = Fin B"
  shows "\<exists>y. f32 x = Fin y \<and> \<bar>y\<bar> \<le> B \<and> (0 \<le> x \<longrightarrow> 0 \<le> y) \<and> (x \<le> 0 \<longrightarrow> y \<le> 0)"
proof (cases "0 \<le> x")
  case True
  from f32_mono_fin[OF True _ assms(2)] assms(1) True show ?thesis by auto
next
  case False
  then have "0 \<le> - x" "- x \<le> B" using assms by auto
  from f32_mono_fin[OF this assms(2)] obtain a where a: "f32 (- x) = Fin a" "0 \<le> a" "a \<le> B" by auto
  have "f32 x = fneg (f32 (- x))" using f32_minus[of "- x"] by simp
  then show ?thesis using a False by auto
qed

lemma f32exp_lo:
  assumes x: "0 < x" and hi: "x * 2 ^ j < 2 ^ 24" and lo: "2 ^ 23 \<le> x * 2 ^ j \<or> j = 149" and j: "j \<le> 149"
  shows "f32exp x = 23 - int j"
proof -
  have p: "(2::real) powr (of_int (23 - int j)) = 2 ^ 23 / 2 ^ j"
    by (simp add: powr_diff powr_realpow)
  have p1: "(2::real) powr (of_int (23 - int j + 1)) = 2 ^ 24 / 2 ^ j"
  proof -
    have "of_int (23 - int j + 1) = (24 - real j)" by simp
    then show ?thesis by (simp add: powr_diff powr_realpow)
  qed
  have up: "x < 2 powr (of_int (23 - int j + 1))"
    unfolding p1 using hi by (simp add: field_simps)
  show ?thesis
  proof (cases "2 ^ 23 \<le> x * 2 ^ j")
    case True
    then have "2 powr (of_int (23 - int j)) \<le> x" unfolding p by (simp add: field_simps)
    then have "\<lfloor>log 2 x\<rfloor> = 23 - int j"
      using up floor_log_eq_powr_iff[of x 2 "23 - int j"] x by simp
    then show ?thesis using j by (simp add: f32exp_def)
  next
    case False
    then have j149: "j = 149" using lo by simp
    have "\<not> 2 powr (of_int (23 - int j)) \<le> x" unfolding p using False by (simp add: field_simps)
    then have "x < 2 powr (of_int (\<lfloor>log 2 x\<rfloor> + 1)) \<and> \<not> 2 powr (of_int (23 - int j)) \<le> x"
      using log2_bounds(2)[OF x] by simp
    have "\<lfloor>log 2 x\<rfloor> < 23 - int j"
    proof (rule ccontr)
      assume "\<not> \<lfloor>log 2 x\<rfloor> < 23 - int j"
      then have "(2::real) powr (of_int (23 - int j)) \<le> 2 powr of_int \<lfloor>log 2 x\<rfloor>"
        by (intro powr_mono) simp_all
      also have "\<dots> \<le> x" by (rule log2_bounds(1)[OF x])
      finally show False using \<open>\<not> 2 powr (of_int (23 - int j)) \<le> x\<close> by simp
    qed
    then show ?thesis using j149 by (simp add: f32exp_def)
  qed
qed

lemma f32mag_lo:
  assumes x: "0 < x" and hi: "x * 2 ^ j < 2 ^ 24" and lo: "2 ^ 23 \<le> x * 2 ^ j \<or> j = 149" and j: "j \<le> 149"
  shows "f32mag x = of_int (rne (x * 2 ^ j)) / 2 ^ j"
proof -
  have q: "(2::real) powr (of_int (23 - int j) - 23) = 1 / 2 ^ j"
  proof -
    have "of_int (23 - int j) - 23 = - real j" by simp
    then show ?thesis by (simp only: powr_minus_divide powr_realpow)
  qed
  show ?thesis
    unfolding f32mag_def Let_def f32exp_lo[OF assms] q by simp
qed

lemma f32_lo:
  assumes x: "0 < x" and hi: "x * 2 ^ j < 2 ^ 24" and lo: "2 ^ 23 \<le> x * 2 ^ j \<or> j = 149" and j: "j \<le> 149"
    and n: "2 * \<bar>x * 2 ^ j - of_int n\<bar> < 1 \<or> (2 * \<bar>x * 2 ^ j - of_int n\<bar> = 1 \<and> even n)"
  shows "f32 x = Fin (of_int n / 2 ^ j)"
proof -
  have m: "f32mag x = of_int n / 2 ^ j"
    unfolding f32mag_lo[OF x hi lo j] rne_eq[OF n] ..
  have "f32mag x \<le> 2 powr of_int (f32exp x + 1)" by (rule f32mag_upper[OF x])
  also have "\<dots> \<le> 2 powr 24" unfolding f32exp_lo[OF x hi lo j] by (intro powr_mono) simp_all
  also have "\<dots> < 2 ^ 128" by simp
  finally have "\<not> 2 ^ 128 \<le> f32mag x" by simp
  then show ?thesis using x m by (simp add: f32_def Let_def)
qed

lemma f32exp_hi:
  assumes lo: "2 ^ 23 * 2 ^ k \<le> x" and hi: "x < 2 ^ 24 * 2 ^ k"
  shows "f32exp x = 23 + int k"
proof -
  have "0 < (2::real) ^ 23 * 2 ^ k" by simp
  then have x: "0 < x" using lo by linarith
  have p: "(2::real) powr (of_int (23 + int k)) = 2 ^ 23 * 2 ^ k"
    by (simp add: powr_add powr_realpow)
  have p1: "(2::real) powr (of_int (23 + int k + 1)) = 2 ^ 24 * 2 ^ k"
  proof -
    have "of_int (23 + int k + 1) = (24 + real k)" by simp
    then show ?thesis by (simp add: powr_add powr_realpow)
  qed
  have "\<lfloor>log 2 x\<rfloor> = 23 + int k"
    using floor_log_eq_powr_iff[of x 2 "23 + int k"] x lo hi unfolding p p1 by simp
  then show ?thesis by (simp add: f32exp_def)
qed

lemma f32_hi:
  assumes lo: "2 ^ 23 * 2 ^ k \<le> x" and hi: "x < 2 ^ 24 * 2 ^ k" and k: "k \<le> 104"
    and n: "2 * \<bar>x / 2 ^ k - of_int n\<bar> < 1 \<or> (2 * \<bar>x / 2 ^ k - of_int n\<bar> = 1 \<and> even n)"
    and n24: "n < 2 ^ 24"
  shows "f32 x = Fin (of_int n * 2 ^ k)"
proof -
  have "0 < (2::real) ^ 23 * 2 ^ k" by simp
  then have x: "0 < x" using lo by linarith
  have q: "(2::real) powr (of_int (23 + int k) - 23) = 2 ^ k"
  proof -
    have "of_int (23 + int k) - 23 = real k" by simp
    then show ?thesis by (simp only: powr_realpow)
  qed
  have m: "f32mag x = of_int n * 2 ^ k"
    unfolding f32mag_def Let_def f32exp_hi[OF lo hi] q rne_eq[OF n] ..
  have "real_of_int n < 2 ^ 24" using n24 by (metis of_int_less_iff of_int_numeral of_int_power)
  then have "of_int n * (2::real) ^ k < 2 ^ 24 * 2 ^ k" by simp
  also have "\<dots> = 2 ^ (24 + k)" by (simp add: power_add)
  also have "\<dots> \<le> 2 ^ 128" using k by (intro power_increasing) simp_all
  finally have "\<not> 2 ^ 128 \<le> f32mag x" unfolding m by simp
  then show ?thesis using x m by (simp add: f32_def Let_def)
qed

lemma f32_1: "f32 1 = Fin 1"
  using f32_lo[of 1 23 "2 ^ 23"] by simp

lemma f32_6: "f32 6 = Fin 6"
  using f32_lo[of 6 21 "6 * 2 ^ 21"] by simp

lemma f32_2p25: "f32 (2 ^ 25 + 1) = Fin (2 ^ 25)"
  using f32_hi[of 2 "2 ^ 25 + 1" "2 ^ 23"] by simp

lemma f32_2p25': "f32 (2 ^ 25) = Fin (2 ^ 25)"
  using f32_hi[of 2 "2 ^ 25" "2 ^ 23"] by simp

lemma f32_2p75: "f32 (2 ^ 75 + 2 ^ 50) = Fin (2 ^ 75)"
  using f32_hi[of 52 "2 ^ 75 + 2 ^ 50" "2 ^ 23"] by simp

lemma f32_2p127: "f32 (2 ^ 127) = Fin (2 ^ 127)"
  using f32_hi[of 104 "2 ^ 127" "2 ^ 23"] by simp




lemma f32_abs_le:
  assumes "\<bar>x\<bar> \<le> y" "f32 y = Fin b"
  shows "\<exists>a. f32 x = Fin a \<and> \<bar>a\<bar> \<le> b \<and> (0 \<le> x \<longrightarrow> 0 \<le> a)"
proof (cases "0 \<le> x")
  case True
  from f32_mono_fin[OF True _ assms(2)] assms(1) True show ?thesis by auto
next
  case False
  then have "0 \<le> - x" "- x \<le> y" using assms by auto
  from f32_mono_fin[OF this assms(2)] obtain a where a: "f32 (- x) = Fin a" "0 \<le> a" "a \<le> b" by auto
  have "f32 x = fneg (f32 (- x))" using f32_minus[of "- x"] by simp
  then show ?thesis using a False by auto
qed

lemma boundedByE: "boundedBy B c \<Longrightarrow> \<exists>x. c = Fin x \<and> \<bar>x\<bar> \<le> B"
  by (cases c) (simp_all add: boundedBy_def)

lemma boundedBy_Fin [simp]: "boundedBy B (Fin x) = (\<bar>x\<bar> \<le> B)"
  by (simp add: boundedBy_def)

lemma f32_boundedBy:
  assumes "\<bar>x\<bar> \<le> y" "f32 y = Fin b"
  shows "boundedBy b (f32 x)"
  using f32_abs_le[OF assms] by auto

lemma f32_2: "f32 2 = Fin 2"
  using f32_lo[of 2 22 "2 ^ 23"] by simp

lemma f32_2p50: "f32 (2 ^ 50) = Fin (2 ^ 50)"
  using f32_hi[of 27 "2 ^ 50" "2 ^ 23"] by simp

lemma f32_2p75': "f32 (2 ^ 75) = Fin (2 ^ 75)"
  using f32_hi[of 52 "2 ^ 75" "2 ^ 23"] by simp

lemma fmax_Fin: "fmax (Fin a) (Fin b) = Fin (max a b)"
  by (simp add: fmax_def max_def)

lemma fmin_Fin: "fmin (Fin a) (Fin b) = Fin (min a b)"
  by (simp add: fmin_def min_def)

section \<open>Colour conversion: the round trip\<close>

text \<open>
  The degenerate inputs: when the computed lightness is not positive, or the largest and
  the smallest component are equal, hue and saturation are exactly \<open>0\<close>, and the grey
  that \<^verbatim>\<open>hsl2rgb\<close> returns has the lightness it was given.
\<close>

lemma rgb2hsl_degenerate:
  fixes r g b :: real
  defines "l \<equiv> fdiv32 (fadd32 (Fin (min (min r g) b)) (Fin (max (max r g) b))) (Fin 2)"
  assumes "fle l (Fin 0) \<or> max (max r g) b = min (min r g) b"
  shows "rgb2hsl (Fin r) (Fin g) (Fin b) = (Fin 0, Fin 0, l)"
proof (cases "fle l (Fin 0)")
  case True
  then show ?thesis
    unfolding rgb2hsl_def fmax_Fin fmin_Fin l_def by (simp add: Let_def)
next
  case False
  then have e: "max (max r g) b = min (min r g) b" using assms(2) by simp
  have z: "fsub32 (Fin (min (min r g) b)) (Fin (min (min r g) b)) = Fin 0"
    by (simp add: fsub32_def fsub_def)
  show ?thesis
    using False unfolding rgb2hsl_def fmax_Fin fmin_Fin l_def e
    by (simp add: Let_def z fgt_def)
qed

lemma hsl2rgb_grey:
  "hsl2rgb (Fin 0) (Fin 0) (Fin l) = (Fin l, Fin l, Fin l)"
  unfolding hsl2rgb_def Let_def by (simp add: fle_def fgt_def fsub_def)

text \<open>
  Claim C4. The claim says that \<^verbatim>\<open>hsl2rgb(rgb2hsl(c))\<close> reproduces every colour \<open>c\<close> of
  positive lightness with \<open>max(r,g,b) - min(r,g,b) > 0\<close>. On pure red, \<open>(1, 0, 0)\<close>,
  whose lightness is \<open>1/2\<close> and whose delta is \<open>1\<close>, \<^verbatim>\<open>rgb2hsl\<close> answers the hue
  \<open>6/6 = 1\<close>; \<^verbatim>\<open>hsl2rgb\<close> computes the sextant \<open>6\<close>, for which its \<^verbatim>\<open>switch\<close> has no case,
  and returns the grey \<open>(1/2, 1/2, 1/2)\<close>. Every intermediate value is a single-precision
  number, so no operation rounds.
\<close>

theorem C4_roundtrip_fails_on_pure_red:
  "rgb2hsl (Fin 1) (Fin 0) (Fin 0) = (Fin 1, Fin 1, Fin (1/2)) \<and>
   hsl2rgb (Fin 1) (Fin 1) (Fin (1/2)) = (Fin (1/2), Fin (1/2), Fin (1/2))"
proof -
  have f1: "fadd32 (Fin 0) (Fin 1) = Fin 1"
    using f32_lo[of "1" 23 8388608] by (simp add: fadd32_def)
  have f2: "fdiv32 (Fin 1) (Fin 2) = Fin (1 / 2)"
    using f32_lo[of "1 / 2" 24 8388608] by (simp add: fdiv32_def)
  have f3: "fsub32 (Fin 1) (Fin 0) = Fin 1"
    using f32_lo[of "1" 23 8388608] by (simp add: fsub32_def fsub_def)
  have f4: "fadd32 (Fin 1) (Fin 0) = Fin 1"
    using f32_lo[of "1" 23 8388608] by (simp add: fadd32_def)
  have f5: "fdiv32 (Fin 1) (Fin 1) = Fin 1"
    using f32_lo[of "1" 23 8388608] by (simp add: fdiv32_def)
  have f6: "fadd32 (Fin 5) (Fin 1) = Fin 6"
    using f32_lo[of "6" 21 12582912] by (simp add: fadd32_def)
  have f7: "fdiv32 (Fin 6) (Fin 6) = Fin 1"
    using f32_lo[of "1" 23 8388608] by (simp add: fdiv32_def)
  have a: "rgb2hsl (Fin 1) (Fin 0) (Fin 0) = (Fin 1, Fin 1, Fin (1/2))"
    by (simp add: rgb2hsl_def Let_def fmax_def fmin_def fle_def fgt_def f1 f2 f3 f4 f5 f6 f7)
  have b: "hsl2rgb (Fin 1) (Fin 1) (Fin (1/2)) = (Fin (1/2), Fin (1/2), Fin (1/2))"
    by (simp add: hsl2rgb_def fle_def fgt_def fsub_def Let_def)
  from a b show ?thesis by (rule conjI)
qed

text \<open>
  The second slip: the saturation divides by \<open>2 - max - min\<close>, which is \<open>0\<close> at lightness
  \<open>1\<close>. On \<open>(2, 1, 0)\<close> the saturation is infinite, the value computed by \<^verbatim>\<open>hsl2rgb\<close> is
  NaN and the result is the grey \<open>(1, 1, 1)\<close>.
\<close>

lemma roundtrip_fails_at_lightness_one:
  "rgb2hsl (Fin 2) (Fin 1) (Fin 0) = (Fin (11184811 / 2 ^ 27), PInf, Fin 1) \<and>
   hsl2rgb (Fin (11184811 / 2 ^ 27)) PInf (Fin 1) = (Fin 1, Fin 1, Fin 1)"
proof -
  have f1: "fadd32 (Fin 0) (Fin 2) = Fin 2"
    using f32_lo[of "2" 22 8388608] by (simp add: fadd32_def)
  have f2: "fdiv32 (Fin 2) (Fin 2) = Fin 1"
    using f32_lo[of "1" 23 8388608] by (simp add: fdiv32_def)
  have f3: "fsub32 (Fin 2) (Fin 0) = Fin 2"
    using f32_lo[of "2" 22 8388608] by (simp add: fsub32_def fsub_def)
  have f4: "fsub32 (Fin 2) (Fin 2) = Fin 0"
    by (simp add: fsub32_def fsub_def)
  have f5: "fsub32 (Fin 0) (Fin 0) = Fin 0"
    by (simp add: fsub32_def fsub_def)
  have f6: "fsub32 (Fin 2) (Fin 1) = Fin 1"
    using f32_lo[of "1" 23 8388608] by (simp add: fsub32_def fsub_def)
  have f7: "fdiv32 (Fin 1) (Fin 2) = Fin (1 / 2)"
    using f32_lo[of "1 / 2" 24 8388608] by (simp add: fdiv32_def)
  have f8: "fsub32 (Fin 1) (Fin (1 / 2)) = Fin (1 / 2)"
    using f32_lo[of "1 / 2" 24 8388608] by (simp add: fsub32_def fsub_def)
  have f9: "fdiv32 (Fin (1 / 2)) (Fin 6) = Fin (11184811 / 134217728)"
    using f32_lo[of "1 / 12" 27 11184811] by (simp add: fdiv32_def)
  have f10: "fdiv32 (Fin 2) (Fin 0) = PInf"
    by (simp add: fdiv32_def inf_of_sign_def)
  have a: "rgb2hsl (Fin 2) (Fin 1) (Fin 0) = (Fin (11184811 / 2 ^ 27), PInf, Fin 1)"
    by (simp add: rgb2hsl_def Let_def fmax_def fmin_def fle_def fgt_def f1 f2 f3 f4 f5 f6 f7 f8 f9 f10)
  have b: "hsl2rgb (Fin (11184811 / 2 ^ 27)) PInf (Fin 1) = (Fin 1, Fin 1, Fin 1)"
    by (simp add: hsl2rgb_def fle_def fgt_def fsub_def Let_def inf_of_sign_def)
  from a b show ?thesis by (rule conjI)
qed

section \<open>Normalisation of the exposure values\<close>

lemma knownTime_Fin [simp]: "knownTime (Fin t) = (0 < t)"
  by (simp add: knownTime_def)
















lemma shiftEVs_Suc:
  "shiftEVs off (Suc n) s =
    (let s1 = shiftEVs off n s; new_ev = fsub (log2f (expotimes s1 ! n)) off in
        emit (ExpotimeValueChanged (exp2f new_ev) n)
          (s1\<lparr>expotimes := (expotimes s1)[n := exp2f new_ev]\<rparr>))"
  by (simp add: shiftEVs_def Let_def)


lemma shiftEVs_frame:
  "shiftEVs off n s = s\<lparr>expotimes := expotimes (shiftEVs off n s), emitted := emitted (shiftEVs off n s)\<rparr>"
proof (induction n)
  case 0
  then show ?case by (simp add: shiftEVs_def)
next
  case (Suc n)
  show ?case
    unfolding shiftEVs_Suc Let_def
    by (subst Suc.IH) (simp add: emit_def)
qed


lemma powr_2_10: "(2::real) powr 10 = 1024"
  by simp


lemma log_2_2048: "log 2 2048 = 11"
  using log_powr_cancel[of 2 11] by simp



text \<open>On the batch with a missing exposure time: the marker itself becomes NaN.\<close>

lemma checkEVvalues_batchMixed:
  "map_option expotimes (checkEVvalues batchMixed) = Some [Fin 1024, NaN, Fin (1/2)]"
  by (simp add: batchMixed_def checkEVvalues_def evRange_def shiftEVs_def newManager_def emit_def
      Let_def fgt_def fsub_def log_2_2048 powr_2_10 powr_minus_divide)




section \<open>Arrival of images of mixed kinds\<close>

text \<open>
  Claim C7. When an eight-bit image has been accepted (the input type is LDR) and no error
  is pending, an arriving wide-range image raises the error signal and sets the error
  flag, and nothing else of the state changes: the accepted images stay, the arriving
  one is stored nowhere. The same holds with the two kinds exchanged. Once the error flag
  is set, an arriving image of either kind only emits \<^verbatim>\<open>processed\<close>: the state, error
  flag included, stays as it is, so every later arrival is rejected as well.
\<close>

theorem C7_type_mismatch_rejected:
  "(inputType s = LDR_INPUT_TYPE \<and> \<not> m_loadingError s \<longrightarrow>
      mdrReady ext newFrame index expotime newfname s =
        Some (s\<lparr>m_loadingError := True,
                emitted := emitted s @ [ErrorWhileLoading (''The image '' @ newfname @
                    '' is an 8 bit format (LDR) while the previous ones are not.'')]\<rparr>)) \<and>
   (inputType s = MDR_INPUT_TYPE \<and> \<not> m_loadingError s \<longrightarrow>
      ldrReady ext newImage index expotime newfname ldrtiff s =
        Some (s\<lparr>m_loadingError := True,
                emitted := emitted s @ [ErrorWhileLoading (''The image '' @ newfname @
                    '' is an 16 bit format while the previous ones are not.'')]\<rparr>)) \<and>
   (m_loadingError s \<longrightarrow>
      mdrReady ext newFrame index expotime newfname s = Some (s\<lparr>emitted := emitted s @ [Processed]\<rparr>) \<and>
      ldrReady ext newImage index expotime newfname ldrtiff s = Some (s\<lparr>emitted := emitted s @ [Processed]\<rparr>))"
  by (simp add: mdrReady_def ldrReady_def emit_def Let_def)

lemma ldrReady_accepts_first:
  "ldrReady failingLoader (constImage 1 1 0xFF808080) 0 (Fin (1/60)) ''a.jpg'' False twoRequested
     = Some ldrAccepted"
  by (simp add: ldrReady_def ldrsHaveSameSize_def twoRequested_def newManager_def storeAt_def
      newResult_def emit_def ldrAccepted_def Let_def)

lemma mdrReady_accepts_first:
  "mdrReady failingLoader (greyFrame 1 1 300) 0 (Fin (1/60)) ''a.jpg'' twoRequested
     = Some mdrAccepted"
  by (simp add: mdrReady_def mdrsHaveSameSize_def twoRequested_def newManager_def storeAt_def
      newResult_def emit_def mdrAccepted_def Let_def greyFrame_def constPlane_def)

theorem C7_type_mismatch_rejected_witness:
  "(inputType ldrAccepted = LDR_INPUT_TYPE \<and> \<not> m_loadingError ldrAccepted \<and>
      mdrReady failingLoader (greyFrame 1 1 300) 1 (Fin (1/30)) ''b.tif'' ldrAccepted =
        Some (ldrAccepted\<lparr>m_loadingError := True,
                emitted := emitted ldrAccepted @ [ErrorWhileLoading (''The image '' @ ''b.tif'' @
                    '' is an 8 bit format (LDR) while the previous ones are not.'')]\<rparr>)) \<and>
   (inputType mdrAccepted = MDR_INPUT_TYPE \<and> \<not> m_loadingError mdrAccepted \<and>
      ldrReady failingLoader (constImage 1 1 0xFF808080) 1 (Fin (1/30)) ''b.tif'' False mdrAccepted =
        Some (mdrAccepted\<lparr>m_loadingError := True,
                emitted := emitted mdrAccepted @ [ErrorWhileLoading (''The image '' @ ''b.tif'' @
                    '' is an 16 bit format while the previous ones are not.'')]\<rparr>)) \<and>
   (m_loadingError (ldrAccepted\<lparr>m_loadingError := True\<rparr>) \<and>
      mdrReady failingLoader (greyFrame 1 1 300) 1 (Fin (1/30)) ''b.tif'' (ldrAccepted\<lparr>m_loadingError := True\<rparr>)
        = Some (ldrAccepted\<lparr>m_loadingError := True, emitted := emitted ldrAccepted @ [Processed]\<rparr>) \<and>
      ldrReady failingLoader (constImage 1 1 0xFF808080) 1 (Fin (1/30)) ''b.tif'' False
          (ldrAccepted\<lparr>m_loadingError := True\<rparr>)
        = Some (ldrAccepted\<lparr>m_loadingError := True, emitted := emitted ldrAccepted @ [Processed]\<rparr>))"
  using C7_type_mismatch_rejected[where s = ldrAccepted and ext = failingLoader
      and newFrame = "greyFrame 1 1 300" and index = 1 and expotime = "Fin (1/30)" and newfname = "''b.tif''"
      and newImage = "constImage 1 1 0xFF808080" and ldrtiff = False]
    C7_type_mismatch_rejected[where s = mdrAccepted and ext = failingLoader
      and newFrame = "greyFrame 1 1 300" and index = 1 and expotime = "Fin (1/30)" and newfname = "''b.tif''"
      and newImage = "constImage 1 1 0xFF808080" and ldrtiff = False]
    C7_type_mismatch_rejected[where s = "ldrAccepted\<lparr>m_loadingError := True\<rparr>" and ext = failingLoader
      and newFrame = "greyFrame 1 1 300" and index = 1 and expotime = "Fin (1/30)" and newfname = "''b.tif''"
      and newImage = "constImage 1 1 0xFF808080" and ldrtiff = False]
  by (simp add: ldrAccepted_def mdrAccepted_def twoRequested_def newManager_def)

section \<open>Requests for files already in the set\<close>

lemma LoadFile_filename: "m_filename (LoadFile ext item) = m_filename item"
  by (simp add: LoadFile_def Let_def split: option.splits)

lemma tempItemsOf_filenames:
  "map m_filename (tempItemsOf data filenames) = filter (\<lambda>i. i \<notin> m_filename ` set data) filenames"
proof -
  have "(find (\<lambda>item. checkFileName item i) data = None) = (i \<notin> m_filename ` set data)" for i
    by (auto simp: find_None_iff checkFileName_def)
  then show ?thesis
    by (simp add: tempItemsOf_def comp_def newItem_def)
qed

lemma tempItemsOf_fresh:
  "item \<in> set (tempItemsOf data filenames) \<Longrightarrow> m_filename item \<notin> m_filename ` set data"
proof -
  assume "item \<in> set (tempItemsOf data filenames)"
  then have "m_filename item \<in> set (map m_filename (tempItemsOf data filenames))"
    by simp
  then show ?thesis
    unfolding tempItemsOf_filenames by simp
qed

text \<open>
  Claim C9. A path \<open>p\<close> that names an item of the set is not among the items
  \<^verbatim>\<open>loadFiles\<close> schedules for loading, and the number of items named \<open>p\<close> is the same
  after the call as before (one, when it was one).
\<close>

theorem C9_loadFiles_idempotent:
  assumes "p \<in> m_filename ` set (m_data s)"
  shows "p \<notin> m_filename ` set (tempItemsOf (m_data s) filenames) \<and>
         length (filter (\<lambda>item. m_filename item = p) (m_data (loadFiles ext canceled filenames s)))
           = length (filter (\<lambda>item. m_filename item = p) (m_data s))"
proof -
  have a: "p \<notin> m_filename ` set (tempItemsOf (m_data s) filenames)"
  proof
    assume "p \<in> m_filename ` set (tempItemsOf (m_data s) filenames)"
    then obtain item where "item \<in> set (tempItemsOf (m_data s) filenames)" "p = m_filename item"
      by auto
    with tempItemsOf_fresh[of item "m_data s" filenames] assms show False by simp
  qed
  have "filter (\<lambda>item. m_filename item = p)
          (filter (isValid ext) (map (LoadFile ext) (tempItemsOf (m_data s) filenames))) = []"
    using a by (force simp: filter_empty_conv LoadFile_filename)
  then show ?thesis using a by (simp add: loadFiles_def Let_def)
qed

theorem C9_loadFiles_idempotent_witness:
  "''a.tif'' \<in> m_filename ` set (m_data oneLoaded) \<and>
   ''a.tif'' \<notin> m_filename ` set (tempItemsOf (m_data oneLoaded) [''a.tif'', ''b.tif'']) \<and>
   length (filter (\<lambda>item. m_filename item = ''a.tif'')
             (m_data (loadFiles failingLoader False [''a.tif'', ''b.tif''] oneLoaded))) = 1"
proof -
  have h: "''a.tif'' \<in> m_filename ` set (m_data oneLoaded)"
    by (simp add: oneLoaded_def newManager_def newItem_def)
  have c: "length (filter (\<lambda>item. m_filename item = ''a.tif'') (m_data oneLoaded)) = 1"
    by (simp add: oneLoaded_def newManager_def newItem_def)
  from C9_loadFiles_idempotent[OF h, of "[''a.tif'', ''b.tif'']" failingLoader False] h c
  show ?thesis by simp
qed

section \<open>Ghost detection: flagged cells\<close>

lemma flt_NaN_right [simp]: "flt x NaN = False"
  by (cases x) simp_all

lemma fgt_NaN_left [simp]: "fgt NaN x = False"
  by (simp add: fgt_def)

lemma fgt_mono: "fle t1 t2 \<Longrightarrow> fgt x t2 \<Longrightarrow> fgt x t1"
  by (cases t1; cases t2; cases x) (auto simp: fle_def fgt_def)

lemma flag_inner:
  "foldl (\<lambda>p i. if C i then p((i, j) := True) else p) p xs c
     = (p c \<or> (\<exists>i\<in>set xs. C i \<and> c = (i, j)))"
  by (induction xs arbitrary: p) auto

lemma flag_middle:
  "foldl (\<lambda>p j. foldl (\<lambda>p i. if C i j then p((i, j) := True) else p) p xs) p ys c
     = (p c \<or> (\<exists>j\<in>set ys. \<exists>i\<in>set xs. C i j \<and> c = (i, j)))"
  by (induction ys arbitrary: p) (auto simp: flag_inner)

lemma flag_outer:
  "foldl (\<lambda>p h. if h = h0 then p else
       foldl (\<lambda>p j. foldl (\<lambda>p i. if C h i j then p((i, j) := True) else p) p xs) p ys) p hs c
     = (p c \<or> (\<exists>h\<in>set hs. h \<noteq> h0 \<and> (\<exists>j\<in>set ys. \<exists>i\<in>set xs. C h i j \<and> c = (i, j))))"
  by (induction hs arbitrary: p) (auto simp: flag_middle)

lemma flagPatchesMDR_iff:
  "flagPatchesMDR threshold listR listG listB ets h0 gridX gridY c =
    (fst c < gridSize \<and> snd c < gridSize \<and>
     (\<exists>h<length listR. h \<noteq> h0 \<and> ghosted threshold listR listG listB ets h0 gridX gridY h c))"
  unfolding flagPatchesMDR_def Let_def flag_outer ghosted_def
  by (cases c) auto

lemma length_cellCoords: "length (cellCoords i j gridX gridY) = gridX * gridY"
proof -
  have "length (concat (map (\<lambda>y. map (\<lambda>x. (x, y)) [a..<a + n]) ys)) = n * length ys" for a n and ys :: "nat list"
    by (induction ys) simp_all
  from this[of "i * gridX" gridX "[j * gridY..<(j + 1) * gridY]"] show ?thesis
    by (simp add: cellCoords_def add.commute)
qed

lemma comparePatches_mono:
  "fle t1 t2 \<Longrightarrow> comparePatches R1 G1 B1 R2 G2 B2 i j gridX gridY t2 deltaEV
     \<Longrightarrow> comparePatches R1 G1 B1 R2 G2 B2 i j gridX gridY t1 deltaEV"
  unfolding comparePatches_def Let_def by (rule fgt_mono)

lemma comparePatches_empty_cell:
  "gridX = 0 \<or> gridY = 0 \<Longrightarrow> \<not> comparePatches R1 G1 B1 R2 G2 B2 i j gridX gridY threshold deltaEV"
  unfolding comparePatches_def Let_def by (auto simp: inf_of_sign_def)

lemma fsub_self: "zeroOrNaN (fsub x x)"
  by (cases x) (simp_all add: fsub_def zeroOrNaN_def)

lemma logDiff_self: "zeroOrNaN d \<Longrightarrow> zeroOrNaN (logDiff d c c)"
  using fsub_self[of "logf c"] by (auto simp: zeroOrNaN_def logDiff_def)

lemma no_outlier: "zeroOrNaN d \<Longrightarrow> zeroOrNaN x \<Longrightarrow> \<not> fgt (fabs x) (fmul (Fin (7/10)) (fabs d))"
  by (auto simp: zeroOrNaN_def fgt_def)

lemma fgt_zero_ratio: "fle (Fin 0) threshold \<Longrightarrow> \<not> fgt (fdiv (Fin 0) (Fin n)) threshold"
  by (cases threshold) (auto simp: fle_def fgt_def inf_of_sign_def)

lemma comparePatches_identical:
  assumes thr: "fle (Fin 0) threshold" and d: "zeroOrNaN deltaEV"
  shows "\<not> comparePatches R G B R G B i j gridX gridY threshold deltaEV"
proof -
  let ?cell = "cellCoords i j gridX gridY"
  have nth: "zeroOrNaN (map (\<lambda>(x, y). logDiff deltaEV (at2 A x y) (at2 A x y)) ?cell ! h)"
    if "h < gridX * gridY" for h A
    using that by (simp add: length_cellCoords logDiff_self[OF d] split: prod.splits)
  have "filter (\<lambda>h. fgt (fabs (map (\<lambda>(x, y). logDiff deltaEV (at2 R x y) (at2 R x y)) ?cell ! h))
                        (fmul (Fin (7/10)) (fabs deltaEV))
                 \<or> fgt (fabs (map (\<lambda>(x, y). logDiff deltaEV (at2 G x y) (at2 G x y)) ?cell ! h))
                        (fmul (Fin (7/10)) (fabs deltaEV))
                 \<or> fgt (fabs (map (\<lambda>(x, y). logDiff deltaEV (at2 B x y) (at2 B x y)) ?cell ! h))
                        (fmul (Fin (7/10)) (fabs deltaEV)))
            [0..<gridX * gridY] = []"
    using nth no_outlier[OF d] by (simp add: filter_empty_conv)
  then show ?thesis
    unfolding comparePatches_def Let_def
    by (simp only: list.size semiring_1_class.of_nat_0 fgt_zero_ratio[OF thr] not_False_eq_True)
qed



lemma count_inner:
  "foldl (\<lambda>count j. if P j then count + 1 else count) (c0::nat) xs = c0 + length (filter P xs)"
  by (induction xs arbitrary: c0) auto

lemma count_outer:
  "foldl (\<lambda>count i. foldl (\<lambda>count j. if p (i, j) then count + 1 else count) count ys) (c0::nat) xs
     = c0 + sum_list (map (\<lambda>i. length (filter (\<lambda>j. p (i, j)) ys)) xs)"
  by (induction xs arbitrary: c0) (auto simp: count_inner)

lemma countPatches_eq:
  "countPatches p = sum_list (map (\<lambda>i. length (filter (\<lambda>j. p (i, j)) [0..<gridSize])) [0..<gridSize])"
  unfolding countPatches_def count_outer by simp

lemma length_filter_mono:
  "(\<And>x. P x \<Longrightarrow> Q x) \<Longrightarrow> length (filter P xs) \<le> length (filter Q xs)"
  by (induction xs) auto

lemma countPatches_mono:
  assumes "\<And>c. p c \<Longrightarrow> q c"
  shows "countPatches p \<le> countPatches q"
  unfolding countPatches_eq
  by (rule sum_list_mono) (simp add: length_filter_mono assms)

lemma countPatches_none: "(\<And>c. \<not> p c) \<Longrightarrow> countPatches p = 0"
  unfolding countPatches_eq by simp

text \<open>
  Claim C5. For thresholds \<open>t1 \<le> t2\<close> and the same exposures, exposure times, reference
  and grid, every cell the detection loop flags at \<open>t2\<close> is flagged at \<open>t1\<close>, and the
  count of flagged cells at \<open>t2\<close> is at most the count at \<open>t1\<close>.
\<close>

theorem C5_threshold_monotone:
  assumes "fle t1 t2"
  shows "(\<forall>c. flagPatchesMDR t2 listR listG listB ets h0 gridX gridY c
             \<longrightarrow> flagPatchesMDR t1 listR listG listB ets h0 gridX gridY c) \<and>
         countPatches (flagPatchesMDR t2 listR listG listB ets h0 gridX gridY)
           \<le> countPatches (flagPatchesMDR t1 listR listG listB ets h0 gridX gridY)"
proof -
  have m: "flagPatchesMDR t1 listR listG listB ets h0 gridX gridY c"
    if "flagPatchesMDR t2 listR listG listB ets h0 gridX gridY c" for c
    using that comparePatches_mono[OF assms]
    unfolding flagPatchesMDR_iff ghosted_def by blast
  then show ?thesis using countPatches_mono[of "flagPatchesMDR t2 listR listG listB ets h0 gridX gridY"
        "flagPatchesMDR t1 listR listG listB ets h0 gridX gridY"] by blast
qed

theorem C5_threshold_monotone_witness:
  "fle (Fin (1/4)) (Fin (1/2)) \<and>
   {c. flagPatchesMDR (Fin (1/2)) [constPlane 64 64 100, constPlane 64 64 400]
            [constPlane 64 64 100, constPlane 64 64 400] [constPlane 64 64 100, constPlane 64 64 400]
            [Fin 1, Fin 2] 0 1 1 c}
     \<subseteq> {c. flagPatchesMDR (Fin (1/4)) [constPlane 64 64 100, constPlane 64 64 400]
            [constPlane 64 64 100, constPlane 64 64 400] [constPlane 64 64 100, constPlane 64 64 400]
            [Fin 1, Fin 2] 0 1 1 c} \<and>
   countPatches (flagPatchesMDR (Fin (1/2)) [constPlane 64 64 100, constPlane 64 64 400]
            [constPlane 64 64 100, constPlane 64 64 400] [constPlane 64 64 100, constPlane 64 64 400]
            [Fin 1, Fin 2] 0 1 1)
     \<le> countPatches (flagPatchesMDR (Fin (1/4)) [constPlane 64 64 100, constPlane 64 64 400]
            [constPlane 64 64 100, constPlane 64 64 400] [constPlane 64 64 100, constPlane 64 64 400]
            [Fin 1, Fin 2] 0 1 1)"
proof -
  have h: "fle (Fin (1/4)) (Fin (1/2))" by (simp add: fle_def)
  from C5_threshold_monotone[OF h] h show ?thesis by blast
qed

text \<open>
  Claim C6. For two identical exposures with equal exposure times and a threshold that is
  not negative, the detection loop flags no cell, whichever of the two is the reference:
  the count of flagged cells is zero.
\<close>

theorem C6_identical_exposures:
  assumes "fle (Fin 0) threshold" and "h0 < 2"
  shows "(\<forall>c. \<not> flagPatchesMDR threshold [R, R] [G, G] [B, B] [t, t] h0 gridX gridY c) \<and>
         countPatches (flagPatchesMDR threshold [R, R] [G, G] [B, B] [t, t] h0 gridX gridY) = 0"
proof -
  have d: "zeroOrNaN (fsub (logf ([t, t] ! h0)) (logf ([t, t] ! h)))" if "h < 2" for h
    using that assms(2) fsub_self[of "logf t"] by (simp add: nth_Cons split: nat.splits)
  have n: "\<not> flagPatchesMDR threshold [R, R] [G, G] [B, B] [t, t] h0 gridX gridY c" for c
  proof
    assume "flagPatchesMDR threshold [R, R] [G, G] [B, B] [t, t] h0 gridX gridY c"
    then obtain h where h: "h < 2" "ghosted threshold [R, R] [G, G] [B, B] [t, t] h0 gridX gridY h c"
      unfolding flagPatchesMDR_iff by (auto simp: numeral_2_eq_2)
    have e: "[R, R] ! h0 = R" "[R, R] ! h = R" "[G, G] ! h0 = G" "[G, G] ! h = G"
         "[B, B] ! h0 = B" "[B, B] ! h = B"
      using h(1) assms(2) by (simp_all add: nth_Cons split: nat.splits)
    from h(2) show False
      unfolding ghosted_def e using comparePatches_identical[OF assms(1) d[OF h(1)]] by blast
  qed
  then show ?thesis using countPatches_none[of "flagPatchesMDR threshold [R, R] [G, G] [B, B] [t, t] h0 gridX gridY"]
    by blast
qed


theorem C6_identical_exposures_witness:
  "fle (Fin 0) (Fin (1/2)) \<and> (0::nat) < 2 \<and>
   (\<forall>c. \<not> flagPatchesMDR (Fin (1/2)) [constPlane 64 64 (1/2), constPlane 64 64 (1/2)]
            [constPlane 64 64 (1/2), constPlane 64 64 (1/2)]
            [constPlane 64 64 (1/2), constPlane 64 64 (1/2)] [Fin (1/60), Fin (1/60)] 0 1 1 c) \<and>
   countPatches (flagPatchesMDR (Fin (1/2)) [constPlane 64 64 (1/2), constPlane 64 64 (1/2)]
            [constPlane 64 64 (1/2), constPlane 64 64 (1/2)]
            [constPlane 64 64 (1/2), constPlane 64 64 (1/2)] [Fin (1/60), Fin (1/60)] 0 1 1) = 0"
proof -
  have h: "fle (Fin 0) (Fin (1/2))" by (simp add: fle_def)
  have k: "(0::nat) < 2" by simp
  from C6_identical_exposures[OF h k] h k show ?thesis by blast
qed

section \<open>Blending leaves the good image alone\<close>

lemma foldOpt_invariant:
  assumes "foldOpt f xs s = Some s1" and "P s"
    and "\<And>s x s'. P s \<Longrightarrow> f s x = Some s' \<Longrightarrow> P s'"
  shows "P s1"
  using assms
proof (induction xs arbitrary: s)
  case Nil
  then show ?case by simp
next
  case (Cons x xs)
  from Cons.prems(1) obtain s' where s': "f s x = Some s'" "foldOpt f xs s' = Some s1"
    by (auto split: option.splits)
  have "P s'" using Cons.prems(2,3) s'(1) by blast
  then show ?case using Cons.IH[OF s'(2)] Cons.prems(3) by blast
qed

lemma foldOpt_total:
  assumes "P s" and "\<And>s x. P s \<Longrightarrow> x \<in> set xs \<Longrightarrow> \<exists>s'. f s x = Some s' \<and> P s'"
  shows "\<exists>s1. foldOpt f xs s = Some s1"
  using assms
proof (induction xs arbitrary: s)
  case Nil
  then show ?case by simp
next
  case (Cons x xs)
  from Cons.prems obtain s' where s': "f s x = Some s'" "P s'"
    by (meson list.set_intros(1))
  have "\<exists>s1. foldOpt f xs s' = Some s1"
    by (rule Cons.IH[OF s'(2)]) (simp add: Cons.prems(2))
  then show ?case using s'(1) by simp
qed

lemma ptrAt_update_other: "int idx \<noteq> g \<Longrightarrow> ptrAt (xs[idx := v]) g = ptrAt xs g"
  by (auto simp: ptrAt_def)

lemma blendStepLDR_sameGood:
  "sameGood g s0 s \<Longrightarrow> blendStepLDR qt g s idx = Some s' \<Longrightarrow> sameGood g s0 s'"
  by (auto simp: blendStepLDR_def sameGood_def ptrAt_update_other split: if_splits option.splits)

lemma blendStepMDR_sameGood:
  "sameGood g s0 s \<Longrightarrow> blendStepMDR g s idx = Some s' \<Longrightarrow> sameGood g s0 s'"
  by (auto simp: blendStepMDR_def sameGood_def ptrAt_update_other
           split: if_splits option.splits prod.splits)

lemma allSet_ptrAt: "allSet n ptrs \<Longrightarrow> 0 \<le> i \<Longrightarrow> nat i < n \<Longrightarrow> \<exists>v. ptrAt ptrs i = Some v"
  by (auto simp: allSet_def ptrAt_def list_all_length)

lemma allSet_update: "allSet n ptrs \<Longrightarrow> allSet n (ptrs[idx := Some v])"
proof -
  assume a: "allSet n ptrs"
  have "ptrs[idx := Some v] ! k \<noteq> None" if "k < n" for k
  proof (cases "k = idx")
    case True
    then show ?thesis using a that by (simp add: allSet_def)
  next
    case False
    then show ?thesis using a that by (simp add: allSet_def list_all_length)
  qed
  then show ?thesis using a by (simp add: allSet_def list_all_length)
qed

lemma blendStepMDR_total:
  assumes v: "validMDR g s" and x: "idx < length (listmdrR s)"
  shows "\<exists>s'. blendStepMDR g s idx = Some s' \<and> validMDR g s' \<and> length (listmdrR s') = length (listmdrR s)"
proof (cases "int idx = g")
  case True
  then show ?thesis using v by (simp add: blendStepMDR_def)
next
  case False
  let ?n = "length (listmdrR s)"
  from v have g: "0 \<le> g" "nat g < ?n" by (simp_all add: validMDR_def)
  have i: "0 \<le> int idx" "nat (int idx) < ?n" using x by simp_all
  from v have a: "allSet ?n (listmdrR s)" "allSet ?n (listmdrG s)" "allSet ?n (listmdrB s)"
      "allSet ?n (antiGhostingMasksList s)"
    by (simp_all add: validMDR_def)
  obtain R1 where R1: "ptrAt (listmdrR s) (int idx) = Some R1"
    using allSet_ptrAt[OF a(1) i] by blast
  obtain G1 where G1: "ptrAt (listmdrG s) (int idx) = Some G1"
    using allSet_ptrAt[OF a(2) i] by blast
  obtain B1 where B1: "ptrAt (listmdrB s) (int idx) = Some B1"
    using allSet_ptrAt[OF a(3) i] by blast
  obtain M1 where M1: "ptrAt (antiGhostingMasksList s) (int idx) = Some M1"
    using allSet_ptrAt[OF a(4) i] by blast
  obtain R2 where R2: "ptrAt (listmdrR s) g = Some R2"
    using allSet_ptrAt[OF a(1) g] by blast
  obtain G2 where G2: "ptrAt (listmdrG s) g = Some G2"
    using allSet_ptrAt[OF a(2) g] by blast
  obtain B2 where B2: "ptrAt (listmdrB s) g = Some B2"
    using allSet_ptrAt[OF a(3) g] by blast
  obtain M2 where M2: "ptrAt (antiGhostingMasksList s) g = Some M2"
    using allSet_ptrAt[OF a(4) g] by blast
  note 1 = R1 G1 B1 M1
  note 2 = R2 G2 B2 M2
  show ?thesis
    using False 1 2 v
    by (auto simp: blendStepMDR_def validMDR_def allSet_update split: prod.splits)
qed

lemma doAntiGhosting_returns:
  assumes "inputType s \<noteq> LDR_INPUT_TYPE" and "validMDR g s"
  shows "\<exists>s1. doAntiGhosting qt g s = Some s1"
proof -
  have "\<exists>s1. foldOpt (blendStepMDR g) [0..<length (listmdrR s)] s = Some s1"
  proof (rule foldOpt_total[where P = "\<lambda>s'. validMDR g s' \<and> length (listmdrR s') = length (listmdrR s)"])
    show "validMDR g s \<and> length (listmdrR s) = length (listmdrR s)" using assms(2) by simp
  next
    fix s' x
    assume "validMDR g s' \<and> length (listmdrR s') = length (listmdrR s)" "x \<in> set [0..<length (listmdrR s)]"
    then show "\<exists>s''. blendStepMDR g s' x = Some s'' \<and> validMDR g s'' \<and> length (listmdrR s'') = length (listmdrR s)"
      using blendStepMDR_total[of g s' x] by auto
  qed
  then show ?thesis using assms(1) by (simp add: doAntiGhosting_def)
qed

text \<open>
  Claim C10. When \<^verbatim>\<open>doAntiGhosting(goodImageIndex)\<close> returns, the exposure at the good index
  is what it was, in the list of eight-bit images and in the three lists of float planes;
  the masks are unchanged too.
\<close>

theorem C10_good_image_unchanged:
  assumes "doAntiGhosting qt goodImageIndex s = Some s1"
  shows "ptrAt (ldrImagesList s1) goodImageIndex = ptrAt (ldrImagesList s) goodImageIndex \<and>
     ptrAt (listmdrR s1) goodImageIndex = ptrAt (listmdrR s) goodImageIndex \<and>
     ptrAt (listmdrG s1) goodImageIndex = ptrAt (listmdrG s) goodImageIndex \<and>
     ptrAt (listmdrB s1) goodImageIndex = ptrAt (listmdrB s) goodImageIndex \<and>
     antiGhostingMasksList s1 = antiGhostingMasksList s"
proof -
  have s0: "sameGood goodImageIndex s s" by (simp add: sameGood_def)
  have "sameGood goodImageIndex s s1"
  proof (cases "inputType s = LDR_INPUT_TYPE")
    case True
    with assms have f: "foldOpt (blendStepLDR qt goodImageIndex) [0..<length (ldrImagesList s)] s = Some s1"
      by (simp add: doAntiGhosting_def)
    show ?thesis
      by (rule foldOpt_invariant[where P = "sameGood goodImageIndex s", OF f s0])
         (rule blendStepLDR_sameGood)
  next
    case False
    with assms have f: "foldOpt (blendStepMDR goodImageIndex) [0..<length (listmdrR s)] s = Some s1"
      by (simp add: doAntiGhosting_def)
    show ?thesis
      by (rule foldOpt_invariant[where P = "sameGood goodImageIndex s", OF f s0])
         (rule blendStepMDR_sameGood)
  qed
  then show ?thesis by (simp add: sameGood_def)
qed

theorem C10_good_image_unchanged_witness:
  "\<exists>s1. doAntiGhosting plainQt 1 twoExposures = Some s1 \<and>
     ptrAt (ldrImagesList s1) 1 = ptrAt (ldrImagesList twoExposures) 1 \<and>
     ptrAt (listmdrR s1) 1 = Some (constPlane 1 1 200) \<and>
     ptrAt (listmdrG s1) 1 = Some (constPlane 1 1 200) \<and>
     ptrAt (listmdrB s1) 1 = Some (constPlane 1 1 200) \<and>
     antiGhostingMasksList s1 = antiGhostingMasksList twoExposures"
proof -
  have t: "inputType twoExposures \<noteq> LDR_INPUT_TYPE"
    by (simp add: twoExposures_def newManager_def)
  have v: "validMDR 1 twoExposures"
    by (simp add: twoExposures_def newManager_def validMDR_def allSet_def)
  from doAntiGhosting_returns[OF t v, of plainQt] obtain s1
    where s1: "doAntiGhosting plainQt 1 twoExposures = Some s1" by blast
  have p: "ptrAt (listmdrR twoExposures) 1 = Some (constPlane 1 1 200)"
      "ptrAt (listmdrG twoExposures) 1 = Some (constPlane 1 1 200)"
      "ptrAt (listmdrB twoExposures) 1 = Some (constPlane 1 1 200)"
    by (simp_all add: twoExposures_def newManager_def ptrAt_def)
  from C10_good_image_unchanged[OF s1] s1 p show ?thesis by simp
qed



section \<open>Reference selection: the hue scores\<close>

text \<open>
  The hue that \<^verbatim>\<open>rgb2hsl\<close> computes for samples of magnitude at most \<open>2 ^ 126\<close> lies
  between \<open>-1\<close> and \<open>1\<close>; the sum of any number of such hues stays within \<open>2 ^ 25\<close>, where
  adding a hue no longer changes a single-precision sum, and the sum of the squared
  differences stays within \<open>2 ^ 75\<close>. So every score is finite.
\<close>

lemma rgb2hsl_fst:
  "fst (rgb2hsl r g b) =
    (let v = fmax (fmax r g) b;
         m = fmin (fmin r g) b;
         l = fdiv32 (fadd32 m v) (Fin 2);
         vm = fsub32 v m;
         r2 = fdiv32 (fsub32 v r) vm;
         g2 = fdiv32 (fsub32 v g) vm;
         b2 = fdiv32 (fsub32 v b) vm;
         h = (if feq r v then (if feq g m then fadd32 (Fin 5) b2 else fsub32 (Fin 1) g2)
              else if feq g v then (if feq b m then fadd32 (Fin 1) r2 else fsub32 (Fin 3) b2)
              else (if feq r m then fadd32 (Fin 3) g2 else fsub32 (Fin 5) r2))
     in if \<not> fle l (Fin 0) \<and> fgt vm (Fin 0) then fdiv32 h (Fin 6) else Fin 0)"
  by (simp add: rgb2hsl_def Let_def)

lemma ratio32_unit:
  assumes c: "fsub32 (Fin v) (Fin m) = Fin c" and pos: "0 < c" and x: "m \<le> x" "x \<le> v"
  shows "boundedBy 1 (fdiv32 (fsub32 (Fin v) (Fin x)) (Fin c))"
proof -
  have c': "f32 (v - m) = Fin c" using c by (simp add: fsub32_def fsub_def)
  have "0 \<le> v - x" "v - x \<le> v - m" using x by simp_all
  from f32_mono_fin[OF this c'] obtain a where a: "f32 (v - x) = Fin a" "0 \<le> a" "a \<le> c" by auto
  have "\<bar>a / c\<bar> \<le> 1" using a pos by simp
  from f32_boundedBy[OF this f32_1] show ?thesis
    using a pos by (simp add: fsub32_def fsub_def fdiv32_def)
qed

lemma sextant32_bounded:
  assumes "boundedBy 1 t" "k = 1 \<or> k = 3 \<or> k = 5"
  shows "boundedBy 6 (fadd32 (Fin k) t)" "boundedBy 6 (fsub32 (Fin k) t)"
proof -
  from boundedByE[OF assms(1)] obtain x where x: "t = Fin x" "\<bar>x\<bar> \<le> 1" by auto
  have "\<bar>k + x\<bar> \<le> 6" "\<bar>k - x\<bar> \<le> 6" using x assms(2) by auto
  from f32_boundedBy[OF this(1) f32_6] f32_boundedBy[OF this(2) f32_6]
  show "boundedBy 6 (fadd32 (Fin k) t)" "boundedBy 6 (fsub32 (Fin k) t)"
    by (simp_all add: x fadd32_def fsub32_def fsub_def)
qed

lemma sixth32_bounded:
  assumes "boundedBy 6 h"
  shows "boundedBy 1 (fdiv32 h (Fin 6))"
proof -
  from boundedByE[OF assms] obtain y where y: "h = Fin y" "\<bar>y\<bar> \<le> 6" by auto
  have "\<bar>y / 6\<bar> \<le> 1" using y by simp
  from f32_boundedBy[OF this f32_1] show ?thesis by (simp add: y fdiv32_def)
qed

lemma rgb2hsl_hue_bounded:
  assumes "boundedBy (2 ^ 126) r" "boundedBy (2 ^ 126) g" "boundedBy (2 ^ 126) b"
  shows "boundedBy 1 (fst (rgb2hsl r g b))"
proof -
  from assms obtain r' g' b' where e: "r = Fin r'" "g = Fin g'" "b = Fin b'"
    and bd: "\<bar>r'\<bar> \<le> 2 ^ 126" "\<bar>g'\<bar> \<le> 2 ^ 126" "\<bar>b'\<bar> \<le> 2 ^ 126"
    by (auto dest!: boundedByE)
  define v where "v = max (max r' g') b'"
  define m where "m = min (min r' g') b'"
  have ord: "m \<le> r'" "r' \<le> v" "m \<le> g'" "g' \<le> v" "m \<le> b'" "b' \<le> v"
    by (auto simp: v_def m_def)
  have "\<bar>v - m\<bar> \<le> 2 ^ 127" using bd by (auto simp: v_def m_def)
  from f32_abs_le[OF this f32_2p127] ord obtain c where c: "f32 (v - m) = Fin c" "0 \<le> c"
    by auto
  then have c': "fsub32 (Fin v) (Fin m) = Fin c" by (simp add: fsub32_def fsub_def)
  show ?thesis
  proof (cases "0 < c")
    case False
    then show ?thesis
      unfolding rgb2hsl_fst e fmax_Fin fmin_Fin v_def[symmetric] m_def[symmetric] Let_def c'
      by (simp add: fgt_def)
  next
    case True
    note u = ratio32_unit[OF c' True]
    have mv: "m \<le> v" using ord by simp
    show ?thesis
      unfolding rgb2hsl_fst e fmax_Fin fmin_Fin v_def[symmetric] m_def[symmetric] Let_def c'
      using ord mv by (auto intro!: sixth32_bounded sextant32_bounded u)
  qed
qed

lemma foldl_invariant:
  "P a \<Longrightarrow> (\<And>a x. P a \<Longrightarrow> x \<in> set xs \<Longrightarrow> P (f a x)) \<Longrightarrow> P (foldl f a xs)"
  by (induction xs arbitrary: a) simp_all

lemma fadd32_bounded:
  assumes "boundedBy A a" "boundedBy B b" "f32 (A + B) = Fin C"
  shows "boundedBy C (fadd32 a b)"
proof -
  from assms obtain x y where e: "a = Fin x" "b = Fin y" "\<bar>x\<bar> \<le> A" "\<bar>y\<bar> \<le> B"
    by (auto dest!: boundedByE)
  have "\<bar>x + y\<bar> \<le> A + B" using e by simp
  from f32_boundedBy[OF this assms(3)] show ?thesis by (simp add: e fadd32_def)
qed

lemma fsub32_bounded:
  assumes "boundedBy A a" "boundedBy B b" "f32 (A + B) = Fin C"
  shows "boundedBy C (fsub32 a b)"
proof -
  from assms obtain x y where e: "a = Fin x" "b = Fin y" "\<bar>x\<bar> \<le> A" "\<bar>y\<bar> \<le> B"
    by (auto dest!: boundedByE)
  have "\<bar>x - y\<bar> \<le> A + B" using e by simp
  from f32_boundedBy[OF this assms(3)] show ?thesis by (simp add: e fsub32_def fsub_def)
qed

lemma fsquare32_bounded:
  assumes "boundedBy A a" "f32 (A * A) = Fin C"
  shows "boundedBy C (fmul32 a a)"
proof -
  from assms obtain x where e: "a = Fin x" "\<bar>x\<bar> \<le> A"
    by (auto dest!: boundedByE)
  have "\<bar>x\<bar> * \<bar>x\<bar> \<le> A * A" using e by (intro mult_mono) auto
  then have "\<bar>x * x\<bar> \<le> A * A" by (simp add: abs_mult)
  from f32_boundedBy[OF this assms(2)] show ?thesis by (simp add: e fmul32_def)
qed

lemma f32mag_1: "f32mag 1 = 1"
  using f32_1 f32_nonneg[of 1] by (simp split: if_splits)

lemma size32:
  assumes "0 < n"
  shows "fround (Fin (real n)) = PInf \<or> (\<exists>p. fround (Fin (real n)) = Fin p \<and> 1 \<le> p)"
proof -
  have "f32mag 1 \<le> f32mag (real n)" using assms by (intro f32mag_mono) simp_all
  then show ?thesis using f32_nonneg[of "real n"] by (simp add: f32mag_1)
qed

lemma mean32_bounded:
  assumes "boundedBy B s" "0 < n" "f32 B = Fin B"
  shows "boundedBy B (fdiv32 s (fround (Fin (real n))))"
proof -
  from assms obtain x where e: "s = Fin x" "\<bar>x\<bar> \<le> B" by (auto dest!: boundedByE)
  from size32[OF assms(2)] show ?thesis
  proof
    assume "fround (Fin (real n)) = PInf"
    then show ?thesis using e by (simp add: fdiv32_def)
  next
    assume "\<exists>p. fround (Fin (real n)) = Fin p \<and> 1 \<le> p"
    then obtain p where p: "fround (Fin (real n)) = Fin p" "1 \<le> p" by auto
    have "\<bar>x\<bar> / p \<le> \<bar>x\<bar> / 1" using p by (intro divide_left_mono) simp_all
    then have "\<bar>x / p\<bar> \<le> B" using e p by simp
    from f32_boundedBy[OF this assms(3)] show ?thesis using p by (simp add: e fdiv32_def)
  qed
qed

lemma hueMean_bounded:
  assumes "hues \<noteq> []" "\<And>h. h \<in> set hues \<Longrightarrow> boundedBy 1 h"
  shows "boundedBy (2 ^ 25) (hueMean hues)"
proof -
  have "boundedBy (2 ^ 25) (foldl fadd32 (Fin 0) hues)"
  proof (rule foldl_invariant)
    show "boundedBy (2 ^ 25) (Fin 0)" by simp
  next
    fix a x
    assume "boundedBy (2 ^ 25) a" "x \<in> set hues"
    then show "boundedBy (2 ^ 25) (fadd32 a x)"
      by (intro fadd32_bounded[OF _ _ f32_2p25] assms(2))
  qed
  then show ?thesis
    unfolding hueMean_def using assms(1) by (intro mean32_bounded f32_2p25') simp_all
qed

lemma score32_step:
  assumes "boundedBy (2 ^ 25) H" "boundedBy 1 h" "boundedBy (2 ^ 75) HS"
  shows "boundedBy (2 ^ 75) (fadd32 HS (fmul32 (fsub32 H h) (fsub32 H h)))"
proof -
  have d: "boundedBy (2 ^ 25) (fsub32 H h)"
    by (rule fsub32_bounded[OF assms(1,2) f32_2p25])
  have "f32 (2 ^ 25 * 2 ^ 25) = Fin (2 ^ 50)" using f32_2p50 by simp
  from fsquare32_bounded[OF d this] have q: "boundedBy (2 ^ 50) (fmul32 (fsub32 H h) (fsub32 H h))" .
  show ?thesis by (rule fadd32_bounded[OF assms(3) q f32_2p75])
qed

lemma pixelHue_bounded:
  assumes "boundedPlanes listR listG listB" "w < length listR" "i < cols (listR ! 0)" "j < rows (listR ! 0)"
  shows "boundedBy 1 (pixelHue (listR ! w) (listG ! w) (listB ! w) i j)"
  unfolding pixelHue_def using assms by (intro rgb2hsl_hue_bounded) (auto simp: boundedPlanes_def)

lemma hueSquaredMean_bounded:
  assumes bnd: "boundedPlanes listR listG listB" and k: "k < length listR"
    and ne: "0 < cols (listR ! 0) * rows (listR ! 0)"
  shows "boundedBy (2 ^ 75) (hueSquaredMean listR listG listB k)"
proof -
  have n0: "[0..<length listR] \<noteq> []" using k by auto
  have step: "boundedBy (2 ^ 75)
      (fadd32 HS (fmul32
         (fsub32 (hueMean (map (\<lambda>w. pixelHue (listR ! w) (listG ! w) (listB ! w) i j) [0..<length listR]))
                 (pixelHue (listR ! k) (listG ! k) (listB ! k) i j))
         (fsub32 (hueMean (map (\<lambda>w. pixelHue (listR ! w) (listG ! w) (listB ! w) i j) [0..<length listR]))
                 (pixelHue (listR ! k) (listG ! k) (listB ! k) i j))))"
    if "boundedBy (2 ^ 75) HS" "i < cols (listR ! 0)" "j < rows (listR ! 0)" for HS i j
  proof (rule score32_step[OF _ _ that(1)])
    show "boundedBy (2 ^ 25)
        (hueMean (map (\<lambda>w. pixelHue (listR ! w) (listG ! w) (listB ! w) i j) [0..<length listR]))"
      using n0 pixelHue_bounded[OF bnd _ that(2,3)] by (intro hueMean_bounded) auto
    show "boundedBy 1 (pixelHue (listR ! k) (listG ! k) (listB ! k) i j)"
      by (rule pixelHue_bounded[OF bnd k that(2,3)])
  qed
  have "boundedBy (2 ^ 75)
     (foldl (\<lambda>HS j. foldl (\<lambda>HS i.
         fadd32 HS (fmul32
           (fsub32 (hueMean (map (\<lambda>w. pixelHue (listR ! w) (listG ! w) (listB ! w) i j) [0..<length listR]))
                   (pixelHue (listR ! k) (listG ! k) (listB ! k) i j))
           (fsub32 (hueMean (map (\<lambda>w. pixelHue (listR ! w) (listG ! w) (listB ! w) i j) [0..<length listR]))
                   (pixelHue (listR ! k) (listG ! k) (listB ! k) i j))))
        HS [0..<cols (listR ! 0)]) (Fin 0) [0..<rows (listR ! 0)])"
    by (rule foldl_invariant, simp, rule foldl_invariant, assumption, rule step) simp_all
  then show ?thesis
    unfolding hueSquaredMean_def Let_def using ne by (intro mean32_bounded f32_2p75') simp_all
qed

lemma fround_bounded:
  assumes "boundedBy B c" "f32 B = Fin B"
  shows "boundedBy B (fround c)"
proof -
  from assms obtain x where e: "c = Fin x" "\<bar>x\<bar> \<le> B" by (auto dest!: boundedByE)
  from f32_boundedBy[OF e(2) assms(2)] show ?thesis by (simp add: e)
qed

lemma hueSquaredMeanLDR_bounded:
  assumes bnd: "boundedHues qt" and n: "list \<noteq> []"
    and ne: "0 < qwidth (list ! 0) * qheight (list ! 0)"
  shows "boundedBy (2 ^ 75) (hueSquaredMeanLDR qt list k)"
proof -
  have h: "boundedBy 1 (fround (qt_hueF qt p))" for p
    using bnd by (intro fround_bounded f32_1) (simp add: boundedHues_def)
  have n0: "[0..<length list] \<noteq> []" using n by auto
  have step: "boundedBy (2 ^ 75)
      (fadd32 HS (fmul32
         (fsub32 (hueMean (map (\<lambda>h. fround (qt_hueF qt (qpixel (list ! h) i j))) [0..<length list]))
                 (fround (qt_hueF qt (qpixel (list ! k) i j))))
         (fsub32 (hueMean (map (\<lambda>h. fround (qt_hueF qt (qpixel (list ! h) i j))) [0..<length list]))
                 (fround (qt_hueF qt (qpixel (list ! k) i j))))))"
    if "boundedBy (2 ^ 75) HS" for HS i j
  proof (rule score32_step[OF _ _ that(1)])
    show "boundedBy (2 ^ 25)
        (hueMean (map (\<lambda>h. fround (qt_hueF qt (qpixel (list ! h) i j))) [0..<length list]))"
      using n0 h by (intro hueMean_bounded) auto
    show "boundedBy 1 (fround (qt_hueF qt (qpixel (list ! k) i j)))" by (rule h)
  qed
  have "boundedBy (2 ^ 75)
     (foldl (\<lambda>HS j. foldl (\<lambda>HS i.
         fadd32 HS (fmul32
           (fsub32 (hueMean (map (\<lambda>h. fround (qt_hueF qt (qpixel (list ! h) i j))) [0..<length list]))
                   (fround (qt_hueF qt (qpixel (list ! k) i j))))
           (fsub32 (hueMean (map (\<lambda>h. fround (qt_hueF qt (qpixel (list ! h) i j))) [0..<length list]))
                   (fround (qt_hueF qt (qpixel (list ! k) i j))))))
        HS [0..<qwidth (list ! 0)]) (Fin 0) [0..<qheight (list ! 0)])"
    by (rule foldl_invariant, simp, rule foldl_invariant, assumption, rule step)
  then show ?thesis
    unfolding hueSquaredMeanLDR_def Let_def using ne by (intro mean32_bounded f32_2p75') simp_all
qed










lemma is_fin_conv: "is_fin x = (\<exists>a. x = Fin a)"
  by (cases x) simp_all

lemma max_element_fold: "max_element (Fin a) (map Fin xs) = Fin (fold max xs a)"
proof (induction xs arbitrary: a)
  case Nil
  show ?case by simp
next
  case (Cons x xs)
  have "(if a < x then x else a) = max x a" by (simp add: max_def)
  then show ?case by (simp add: Cons.IH if_distrib[of Fin, symmetric] del: if_distrib)
qed

lemma max_element_fin: "max_element (Fin a) (map Fin xs) = Fin (Max (set (a # xs)))"
  by (simp only: max_element_fold Max.set_eq_fold)

lemma firstEq_fin:
  assumes "m \<in> set xs"
  shows "firstEq (map Fin xs) (Fin m) < length xs \<and> xs ! firstEq (map Fin xs) (Fin m) = m \<and>
         (\<forall>j<firstEq (map Fin xs) (Fin m). xs ! j \<noteq> m)"
  using assms
proof (induction xs)
  case Nil
  then show ?case by simp
next
  case (Cons x xs)
  show ?case
  proof (cases "x = m")
    case True
    then show ?thesis by simp
  next
    case False
    with Cons.prems have "m \<in> set xs" by simp
    from Cons.IH[OF this] False show ?thesis
      by (auto simp: nth_Cons split: nat.splits)
  qed
qed

lemma findIndex_fin:
  assumes "xs \<noteq> []"
  shows "\<exists>i. findIndex (map Fin xs) = Some i \<and> i < length xs \<and> xs ! i = Max (set xs) \<and>
            (\<forall>j<i. xs ! j < xs ! i)"
proof -
  from assms obtain a ys where xs: "xs = a # ys" by (cases xs) auto
  let ?m = "Max (set xs)"
  have m: "?m \<in> set xs" by (rule Max_in) (use assms in auto)
  have f: "findIndex (map Fin xs) = Some (firstEq (map Fin xs) (Fin ?m))"
    unfolding xs findIndex_def using max_element_fin[of a ys] by simp
  have lt: "xs ! j < ?m" if "j < firstEq (map Fin xs) (Fin ?m)" for j
  proof -
    from firstEq_fin[OF m] that have n: "xs ! j \<noteq> ?m" and l: "j < length xs" by auto
    have "xs ! j \<le> ?m" using l by simp
    with n show ?thesis by linarith
  qed
  show ?thesis
    using f firstEq_fin[OF m] lt by auto
qed

lemma Fin_real_of: "is_fin x \<Longrightarrow> Fin (real_of x) = x"
  by (cases x) simp_all

lemma findIndex_all_fin:
  assumes "data \<noteq> []" "\<And>x. x \<in> set data \<Longrightarrow> is_fin x"
  shows "\<exists>i. findIndex data = Some i \<and> i < length data"
proof -
  have "map (\<lambda>x. Fin (real_of x)) data = data"
    by (rule map_idI) (simp add: Fin_real_of assms(2))
  then have e: "map Fin (map real_of data) = data" by (simp add: comp_def)
  have "map real_of data \<noteq> []" using assms(1) by simp
  from findIndex_fin[OF this] show ?thesis
    unfolding e by auto
qed




lemma boundedBy_is_fin: "boundedBy B c \<Longrightarrow> is_fin c"
  by (simp add: boundedBy_def)

lemma referenceIndexMDR_found:
  assumes bnd: "boundedPlanes listR listG listB" and n: "listR \<noteq> []"
    and ne: "0 < cols (listR ! 0) * rows (listR ! 0)"
  shows "\<exists>h0. referenceIndexMDR listR listG listB = Some h0 \<and> h0 < length listR"
proof -
  have "\<exists>i. findIndex (map (hueSquaredMean listR listG listB) [0..<length listR]) = Some i
          \<and> i < length (map (hueSquaredMean listR listG listB) [0..<length listR])"
    by (rule findIndex_all_fin)
       (use n boundedBy_is_fin[OF hueSquaredMean_bounded[OF bnd _ ne]] in auto)
  then show ?thesis by (simp add: referenceIndexMDR_def)
qed

lemma referenceIndexLDR_found:
  assumes bnd: "boundedHues qt" and n: "list \<noteq> []"
    and ne: "0 < qwidth (list ! 0) * qheight (list ! 0)"
  shows "\<exists>h0. referenceIndexLDR qt list = Some h0 \<and> h0 < length list"
proof -
  have "\<exists>i. findIndex (map (hueSquaredMeanLDR qt list) [0..<length list]) = Some i
          \<and> i < length (map (hueSquaredMeanLDR qt list) [0..<length list])"
    by (rule findIndex_all_fin)
       (use n boundedBy_is_fin[OF hueSquaredMeanLDR_bounded[OF bnd n ne]] in auto)
  then show ?thesis by (simp add: referenceIndexLDR_def)
qed

lemma at2_constPlane: "i < w \<Longrightarrow> j < h \<Longrightarrow> at2 (constPlane w h c) i j = Fin c"
proof -
  assume i: "i < w" and j: "j < h"
  have "j * w + i < Suc j * w" using i by simp
  also have "\<dots> \<le> h * w" using j by (intro mult_le_mono1) simp
  finally have "j * w + i < w * h" by (simp add: mult.commute)
  then show ?thesis by (simp add: at2_def constPlane_def)
qed





section \<open>Images smaller than the grid\<close>

lemma comparePatchesLDR_empty_cell:
  "gridX = 0 \<or> gridY = 0 \<Longrightarrow> \<not> comparePatchesLDR qt image1 image2 i j gridX gridY threshold deltaEV"
  unfolding comparePatchesLDR_def Let_def by (auto simp: inf_of_sign_def)

lemma flagPatchesLDR_iff:
  "flagPatchesLDR qt threshold list ets h0 gridX gridY c =
    (fst c < gridSize \<and> snd c < gridSize \<and>
     (\<exists>h<length list. h \<noteq> h0 \<and>
        comparePatchesLDR qt (list ! h0) (list ! h) (fst c) (snd c) gridX gridY threshold
          (fsub (logf (ets ! h0)) (logf (ets ! h)))))"
  unfolding flagPatchesLDR_def Let_def flag_outer
  by (cases c) auto

lemma flagPatchesMDR_empty_cells:
  "gridX = 0 \<or> gridY = 0 \<Longrightarrow>
   flagPatchesMDR threshold listR listG listB ets h0 gridX gridY = (\<lambda>c. False)"
  by (rule ext) (simp add: flagPatchesMDR_iff ghosted_def comparePatches_empty_cell)

lemma flagPatchesLDR_empty_cells:
  "gridX = 0 \<or> gridY = 0 \<Longrightarrow>
   flagPatchesLDR qt threshold list ets h0 gridX gridY = (\<lambda>c. False)"
  by (rule ext) (simp add: flagPatchesLDR_iff comparePatchesLDR_empty_cell)

lemma foldl_unchanged: "(\<And>a x. f a x = a) \<Longrightarrow> foldl f a xs = a"
  by (induction xs) simp_all

lemma copyPatches_no_flags:
  "copyPatches planes (\<lambda>c. False) h0 scalefactor gridX gridY = planes"
  unfolding copyPatches_def
  by (intro foldl_unchanged) (auto simp: split_def foldl_unchanged)

lemma copyPatchesLDR_no_flags:
  "copyPatchesLDR qt list (\<lambda>c. False) h0 scalefactor gridX gridY = list"
  unfolding copyPatchesLDR_def
  by (intro foldl_unchanged) (auto simp: foldl_unchanged)

lemma those_map_Some: "those (map Some xs) = Some xs"
  by (induction xs) simp_all

lemma derefAll_map_Some: "derefAll (length xs) (map Some xs) = Some xs"
  by (simp add: derefAll_def those_map_Some)

lemma doAutoAntiGhostingMDR_small:
  assumes R: "listmdrR s = map Some listR" and G: "listmdrG s = map Some listG"
    and B: "listmdrB s = map Some listB"
    and len: "length listG = length listR" "length listB = length listR"
    and n: "listR \<noteq> []"
    and bnd: "boundedPlanes listR listG listB"
    and ne: "0 < cols (listR ! 0) * rows (listR ! 0)"
    and ets: "length listR \<le> length (expotimes s)"
    and small: "cols (listR ! 0) < gridSize \<or> rows (listR ! 0) < gridSize"
  shows "doAutoAntiGhostingMDR threshold s = Some s"
proof -
  from n obtain R0 rest where l: "listR = R0 # rest" by (cases listR) auto
  have g: "cols R0 div gridSize = 0 \<or> rows R0 div gridSize = 0"
    using small by (auto simp: l)
  from referenceIndexMDR_found[OF bnd n ne] obtain h0
    where h0: "referenceIndexMDR listR listG listB = Some h0" "h0 < length listR"
    by auto
  have d: "derefAll (length (listmdrR s)) (listmdrR s) = Some listR"
      "derefAll (length (listmdrR s)) (listmdrG s) = Some listG"
      "derefAll (length (listmdrR s)) (listmdrB s) = Some listB"
    using derefAll_map_Some[of listR] derefAll_map_Some[of listG] derefAll_map_Some[of listB] len
    by (simp_all add: R G B)
  have wb: "s\<lparr>listmdrR := map Some listR,
              listmdrG := map Some listG @ drop (length (listmdrR s)) (listmdrG s),
              listmdrB := map Some listB @ drop (length (listmdrR s)) (listmdrB s)\<rparr> = s"
    using len by (simp add: R G B)
  show ?thesis
    unfolding doAutoAntiGhostingMDR_def Let_def d
    using h0 ets g wb
    by (simp add: l flagPatchesMDR_empty_cells copyPatches_no_flags R)
qed

lemma doAutoAntiGhostingLDR_small:
  assumes L: "ldrImagesList s = map Some list"
    and n: "list \<noteq> []"
    and bnd: "boundedHues qt"
    and ne: "0 < qwidth (list ! 0) * qheight (list ! 0)"
    and ets: "length list \<le> length (expotimes s)"
    and small: "qwidth (list ! 0) < gridSize \<or> qheight (list ! 0) < gridSize"
  shows "doAutoAntiGhostingLDR qt threshold s = Some s"
proof -
  from n obtain img0 rest where l: "list = img0 # rest" by (cases list) auto
  have g: "qwidth img0 div gridSize = 0 \<or> qheight img0 div gridSize = 0"
    using small by (auto simp: l)
  from referenceIndexLDR_found[OF bnd n ne] obtain h0
    where h0: "referenceIndexLDR qt list = Some h0" "h0 < length list"
    by auto
  have d: "derefAll (length (ldrImagesList s)) (ldrImagesList s) = Some list"
    using derefAll_map_Some[of list] by (simp add: L)
  have wb: "s\<lparr>ldrImagesList := map Some list\<rparr> = s"
    by (simp add: L)
  show ?thesis
    unfolding doAutoAntiGhostingLDR_def Let_def d
    using h0 ets g wb
    by (simp add: l flagPatchesLDR_empty_cells copyPatchesLDR_no_flags L)
qed

lemma boundedPlanes_greyPair: "boundedPlanes (greyPair w h) (greyPair w h) (greyPair w h)"
  by (auto simp: boundedPlanes_def greyPair_def less_Suc_eq constPlane_def at2_constPlane[unfolded constPlane_def]
      nth_Cons split: nat.splits)

lemma boundedHues_plainQt: "boundedHues plainQt"
  by (simp add: boundedHues_def plainQt_def)

text \<open>
  Claim C2, as amended. Take a set ghost detection can run on: no null pointer, the three
  lists of planes of one length, at least one exposure, an exposure time for every
  image, a first image of at least one pixel, and samples of magnitude at most
  \<open>2 ^ 126\<close> (for eight-bit images, hues that Qt reports between \<open>-1\<close> and \<open>1\<close>). When the
  first image of such a set is narrower or lower than \<open>gridSize\<close>, the cells have no
  pixels, \<^verbatim>\<open>doAutoAntiGhosting\<close> raises no error and returns, no cell is flagged, and the
  state of the manager is what it was: the pixel data, the error flag and the emitted
  signals are unchanged.
\<close>

theorem C2_small_image_returns_unchanged:
  "(inputType s \<noteq> LDR_INPUT_TYPE \<and>
    listmdrR s = map Some listR \<and> listmdrG s = map Some listG \<and> listmdrB s = map Some listB \<and>
    length listG = length listR \<and> length listB = length listR \<and> listR \<noteq> [] \<and>
    boundedPlanes listR listG listB \<and> 0 < cols (listR ! 0) * rows (listR ! 0) \<and>
    length listR \<le> length (expotimes s) \<and>
    (cols (listR ! 0) < gridSize \<or> rows (listR ! 0) < gridSize)
    \<longrightarrow> doAutoAntiGhosting qt threshold s = Some s \<and>
        flagPatchesMDR threshold listR listG listB (expotimes s) h0
          (cols (listR ! 0) div gridSize) (rows (listR ! 0) div gridSize) = (\<lambda>c. False)) \<and>
   (inputType s = LDR_INPUT_TYPE \<and>
    ldrImagesList s = map Some list \<and> list \<noteq> [] \<and> boundedHues qt \<and>
    0 < qwidth (list ! 0) * qheight (list ! 0) \<and> length list \<le> length (expotimes s) \<and>
    (qwidth (list ! 0) < gridSize \<or> qheight (list ! 0) < gridSize)
    \<longrightarrow> doAutoAntiGhosting qt threshold s = Some s \<and>
        flagPatchesLDR qt threshold list (expotimes s) h0
          (qwidth (list ! 0) div gridSize) (qheight (list ! 0) div gridSize) = (\<lambda>c. False))"
proof (intro conjI impI)
  assume h: "inputType s \<noteq> LDR_INPUT_TYPE \<and>
    listmdrR s = map Some listR \<and> listmdrG s = map Some listG \<and> listmdrB s = map Some listB \<and>
    length listG = length listR \<and> length listB = length listR \<and> listR \<noteq> [] \<and>
    boundedPlanes listR listG listB \<and> 0 < cols (listR ! 0) * rows (listR ! 0) \<and>
    length listR \<le> length (expotimes s) \<and>
    (cols (listR ! 0) < gridSize \<or> rows (listR ! 0) < gridSize)"
  then show "doAutoAntiGhosting qt threshold s = Some s"
    using doAutoAntiGhostingMDR_small[of s listR listG listB threshold]
    by (simp add: doAutoAntiGhosting_def)
  from h have "cols (listR ! 0) div gridSize = 0 \<or> rows (listR ! 0) div gridSize = 0"
    by auto
  then show "flagPatchesMDR threshold listR listG listB (expotimes s) h0
          (cols (listR ! 0) div gridSize) (rows (listR ! 0) div gridSize) = (\<lambda>c. False)"
    by (rule flagPatchesMDR_empty_cells)
next
  assume h: "inputType s = LDR_INPUT_TYPE \<and>
    ldrImagesList s = map Some list \<and> list \<noteq> [] \<and> boundedHues qt \<and>
    0 < qwidth (list ! 0) * qheight (list ! 0) \<and> length list \<le> length (expotimes s) \<and>
    (qwidth (list ! 0) < gridSize \<or> qheight (list ! 0) < gridSize)"
  then show "doAutoAntiGhosting qt threshold s = Some s"
    using doAutoAntiGhostingLDR_small[of s list qt threshold]
    by (simp add: doAutoAntiGhosting_def)
  from h have "qwidth (list ! 0) div gridSize = 0 \<or> qheight (list ! 0) div gridSize = 0"
    by auto
  then show "flagPatchesLDR qt threshold list (expotimes s) h0
          (qwidth (list ! 0) div gridSize) (qheight (list ! 0) div gridSize) = (\<lambda>c. False)"
    by (rule flagPatchesLDR_empty_cells)
qed

theorem C2_small_image_returns_unchanged_witness:
  "(inputType (greySet 39 100) \<noteq> LDR_INPUT_TYPE \<and>
    listmdrR (greySet 39 100) = map Some (greyPair 39 100) \<and>
    boundedPlanes (greyPair 39 100) (greyPair 39 100) (greyPair 39 100) \<and>
    cols (greyPair 39 100 ! 0) < gridSize \<and>
    doAutoAntiGhosting plainQt (Fin (1/2)) (greySet 39 100) = Some (greySet 39 100)) \<and>
   (inputType greySetLDR = LDR_INPUT_TYPE \<and>
    ldrImagesList greySetLDR = map Some greyImages \<and>
    qwidth (greyImages ! 0) < gridSize \<and>
    doAutoAntiGhosting plainQt (Fin (1/2)) greySetLDR = Some greySetLDR)"
proof -
  have m: "inputType (greySet 39 100) \<noteq> LDR_INPUT_TYPE \<and>
    listmdrR (greySet 39 100) = map Some (greyPair 39 100) \<and>
    listmdrG (greySet 39 100) = map Some (greyPair 39 100) \<and>
    listmdrB (greySet 39 100) = map Some (greyPair 39 100) \<and>
    length (greyPair 39 100) = length (greyPair 39 100) \<and>
    length (greyPair 39 100) = length (greyPair 39 100) \<and> greyPair 39 100 \<noteq> [] \<and>
    boundedPlanes (greyPair 39 100) (greyPair 39 100) (greyPair 39 100) \<and>
    0 < cols (greyPair 39 100 ! 0) * rows (greyPair 39 100 ! 0) \<and>
    length (greyPair 39 100) \<le> length (expotimes (greySet 39 100)) \<and>
    (cols (greyPair 39 100 ! 0) < gridSize \<or> rows (greyPair 39 100 ! 0) < gridSize)"
    using boundedPlanes_greyPair[of 39 100]
    by (simp add: greySet_def newManager_def greyPair_def constPlane_def gridSize_def)
  have l: "inputType greySetLDR = LDR_INPUT_TYPE \<and>
    ldrImagesList greySetLDR = map Some greyImages \<and> greyImages \<noteq> [] \<and>
    boundedHues plainQt \<and>
    0 < qwidth (greyImages ! 0) * qheight (greyImages ! 0) \<and>
    length greyImages \<le> length (expotimes greySetLDR) \<and>
    (qwidth (greyImages ! 0) < gridSize \<or> qheight (greyImages ! 0) < gridSize)"
    by (simp add: greySetLDR_def newManager_def greyImages_def constImage_def gridSize_def
        boundedHues_plainQt)
  from C2_small_image_returns_unchanged[where s = "greySet 39 100" and listR = "greyPair 39 100"
      and listG = "greyPair 39 100" and listB = "greyPair 39 100" and qt = plainQt
      and threshold = "Fin (1/2)"] m
  have 1: "doAutoAntiGhosting plainQt (Fin (1/2)) (greySet 39 100) = Some (greySet 39 100)"
    by blast
  from C2_small_image_returns_unchanged[where s = greySetLDR and list = greyImages and qt = plainQt
      and threshold = "Fin (1/2)"] l
  have 2: "doAutoAntiGhosting plainQt (Fin (1/2)) greySetLDR = Some greySetLDR"
    by blast
  from m l 1 2 show ?thesis
    by (simp add: greyPair_def constPlane_def gridSize_def greyImages_def constImage_def)
qed

text \<open>
  The claim as stated fails on two 10 by 10 exposures with the grid of 40: the call
  returns, the error flag is not set and no signal is emitted.
\<close>

theorem C2_no_degenerate_grid_error_counterexample:
  "doAutoAntiGhosting plainQt (Fin (1/2)) (greySet 10 10) = Some (greySet 10 10) \<and>
   \<not> m_loadingError (greySet 10 10) \<and> emitted (greySet 10 10) = []"
proof -
  have "doAutoAntiGhostingMDR (Fin (1/2)) (greySet 10 10) = Some (greySet 10 10)"
    by (rule doAutoAntiGhostingMDR_small[where listR = "greyPair 10 10" and listG = "greyPair 10 10"
          and listB = "greyPair 10 10"])
       (simp_all add: greySet_def newManager_def boundedPlanes_greyPair,
        simp_all add: greyPair_def constPlane_def gridSize_def)
  then show ?thesis
    by (simp add: doAutoAntiGhosting_def greySet_def newManager_def)
qed

section \<open>Ghost correction: what stays unchanged\<close>

lemma set_cellCoords: "((x, y) \<in> set (cellCoords i j gridX gridY)) = inCell gridX gridY i j x y"
  by (force simp: cellCoords_def inCell_def)

lemma at2_put2_other:
  assumes "x < cols A" "x' < cols A" "(x', y') \<noteq> (x, y)"
  shows "at2 (put2 A x' y' v) x y = at2 A x y"
proof -
  have "y' * cols A + x' \<noteq> y * cols A + x"
  proof
    assume e: "y' * cols A + x' = y * cols A + x"
    then have "(y' * cols A + x') div cols A = (y * cols A + x) div cols A" by simp
    then have "y' = y" using assms(1,2) by simp
    with e assms(3) show False by simp
  qed
  then show ?thesis by (simp add: at2_def put2_def)
qed

lemma cols_put2: "cols (put2 A x y v) = cols A"
  by (simp add: put2_def)

lemma copyPatch_keeps:
  assumes w: "cols R2 = W" "cols G2 = W" "cols B2 = W" and x: "x < W"
    and fit: "(i + 1) * gridX \<le> W"
    and k: "saturated R1 G1 B1 i j gridX gridY \<or> \<not> inCell gridX gridY i j x y"
  shows "keeps W x y (R2, G2, B2) (copyPatch R1 G1 B1 (R2, G2, B2) i j gridX gridY sf)"
proof (cases "saturated R1 G1 B1 i j gridX gridY")
  case True
  then show ?thesis using w by (simp add: copyPatch_def saturated_def keeps_def Let_def)
next
  case False
  with k have out: "(x, y) \<notin> set (cellCoords i j gridX gridY)" by (simp add: set_cellCoords)
  have inW: "x' < W" if "(x', y') \<in> set (cellCoords i j gridX gridY)" for x' y'
    using that fit by (simp add: set_cellCoords inCell_def)
  have "keeps W x y (R2, G2, B2)
     (foldl (\<lambda>(R2, G2, B2) (x, y).
            case scaledPixel sf (at2 R1 x y) (at2 G1 x y) (at2 B1 x y) of (r, g, b) \<Rightarrow>
              (put2 R2 x y r, put2 G2 x y g, put2 B2 x y b))
          (R2, G2, B2) (cellCoords i j gridX gridY))"
  proof (rule foldl_invariant[where P = "keeps W x y (R2, G2, B2)"])
    show "keeps W x y (R2, G2, B2) (R2, G2, B2)" using w by (simp add: keeps_def)
  next
    fix a c
    assume a: "keeps W x y (R2, G2, B2) a" and c: "c \<in> set (cellCoords i j gridX gridY)"
    obtain x' y' where c': "c = (x', y')" by (cases c)
    have ne: "(x', y') \<noteq> (x, y)" using out c c' by auto
    have xw: "x' < W" using inW c c' by simp
    show "keeps W x y (R2, G2, B2)
        ((\<lambda>(R2, G2, B2) (x, y).
            case scaledPixel sf (at2 R1 x y) (at2 G1 x y) (at2 B1 x y) of (r, g, b) \<Rightarrow>
              (put2 R2 x y r, put2 G2 x y g, put2 B2 x y b)) a c)"
      using a ne xw x
      by (auto simp: keeps_def c' cols_put2 at2_put2_other split: prod.splits)
  qed
  then show ?thesis using False by (simp add: copyPatch_def saturated_def Let_def)
qed


lemma corrInv_step:
  assumes inv: "corrInv W x y h0 (listR, listG, listB) (listR1, listG1, listB1)"
    and h: "h < length listR" "h \<noteq> h0"
    and x: "x < W" and fit: "(i + 1) * gridX \<le> W"
    and k: "saturated (listR ! h0) (listG ! h0) (listB ! h0) i j gridX gridY
            \<or> \<not> inCell gridX gridY i j x y"
    and c: "copyPatch (listR1 ! h0) (listG1 ! h0) (listB1 ! h0) (listR1 ! h, listG1 ! h, listB1 ! h)
              i j gridX gridY sf = (R2, G2, B2)"
  shows "corrInv W x y h0 (listR, listG, listB) (listR1[h := R2], listG1[h := G2], listB1[h := B2])"
proof -
  from inv have ref: "listR1 ! h0 = listR ! h0" "listG1 ! h0 = listG ! h0" "listB1 ! h0 = listB ! h0"
    and len: "length listR1 = length listR" "length listG1 = length listR" "length listB1 = length listR"
    and px: "\<And>h. h < length listR \<Longrightarrow>
          cols (listR1 ! h) = W \<and> cols (listG1 ! h) = W \<and> cols (listB1 ! h) = W \<and>
          at2 (listR1 ! h) x y = at2 (listR ! h) x y \<and>
          at2 (listG1 ! h) x y = at2 (listG ! h) x y \<and>
          at2 (listB1 ! h) x y = at2 (listB ! h) x y"
    by (simp_all add: corrInv_def)
  have "keeps W x y (listR1 ! h, listG1 ! h, listB1 ! h)
          (copyPatch (listR1 ! h0) (listG1 ! h0) (listB1 ! h0) (listR1 ! h, listG1 ! h, listB1 ! h)
              i j gridX gridY sf)"
    by (rule copyPatch_keeps) (use px[OF h(1)] x fit k ref in simp_all)
  then have k2: "cols R2 = W" "cols G2 = W" "cols B2 = W"
      "at2 R2 x y = at2 (listR1 ! h) x y" "at2 G2 x y = at2 (listG1 ! h) x y"
      "at2 B2 x y = at2 (listB1 ! h) x y"
    by (simp_all add: c keeps_def)
  have "cols (listR1[h := R2] ! h') = W \<and> cols (listG1[h := G2] ! h') = W \<and>
        cols (listB1[h := B2] ! h') = W \<and>
        at2 (listR1[h := R2] ! h') x y = at2 (listR ! h') x y \<and>
        at2 (listG1[h := G2] ! h') x y = at2 (listG ! h') x y \<and>
        at2 (listB1[h := B2] ! h') x y = at2 (listB ! h') x y" if h': "h' < length listR" for h'
  proof (cases "h' = h")
    case True
    then show ?thesis using k2 px[OF h(1)] h(1) len by simp
  next
    case False
    then show ?thesis using px[OF h'] by simp
  qed
  then show ?thesis
    using ref len h(2) by (simp add: corrInv_def)
qed

lemma copyPatches_corrInv:
  assumes wide: "planesWide W (listR, listG, listB)"
    and x: "x < W" and fit: "gridSize * gridX \<le> W"
    and kept: "keptPixel patches (listR ! h0) (listG ! h0) (listB ! h0) gridX gridY x y"
  shows "corrInv W x y h0 (listR, listG, listB)
           (copyPatches (listR, listG, listB) patches h0 scalefactor gridX gridY)"
  unfolding copyPatches_def fst_conv
proof (rule foldl_invariant[where P = "corrInv W x y h0 (listR, listG, listB)"])
  show "corrInv W x y h0 (listR, listG, listB) (listR, listG, listB)"
    using wide by (simp add: corrInv_def planesWide_def list_all_length)
next
  fix planes h
  assume p: "corrInv W x y h0 (listR, listG, listB) planes" and h: "h \<in> set [0..<length listR]"
  show "corrInv W x y h0 (listR, listG, listB)
     (if h = h0 then planes else
      foldl (\<lambda>planes j. foldl (\<lambda>(listR, listG, listB) i.
          if patches (i, j) then
            (case copyPatch (listR ! h0) (listG ! h0) (listB ! h0)
                            (listR ! h, listG ! h, listB ! h)
                            i j gridX gridY (scalefactor ! h) of
               (R2, G2, B2) \<Rightarrow> (listR[h := R2], listG[h := G2], listB[h := B2]))
          else (listR, listG, listB))
        planes [0..<gridSize]) planes [0..<gridSize])"
  proof (cases "h = h0")
    case True
    then show ?thesis using p by simp
  next
    case False
    have "corrInv W x y h0 (listR, listG, listB)
      (foldl (\<lambda>planes j. foldl (\<lambda>(listR, listG, listB) i.
          if patches (i, j) then
            (case copyPatch (listR ! h0) (listG ! h0) (listB ! h0)
                            (listR ! h, listG ! h, listB ! h)
                            i j gridX gridY (scalefactor ! h) of
               (R2, G2, B2) \<Rightarrow> (listR[h := R2], listG[h := G2], listB[h := B2]))
          else (listR, listG, listB))
        planes [0..<gridSize]) planes [0..<gridSize])"
    proof (rule foldl_invariant[where P = "corrInv W x y h0 (listR, listG, listB)", OF p])
      fix planes1 j
      assume p1: "corrInv W x y h0 (listR, listG, listB) planes1" and j: "j \<in> set [0..<gridSize]"
      show "corrInv W x y h0 (listR, listG, listB)
         (foldl (\<lambda>(listR, listG, listB) i.
          if patches (i, j) then
            (case copyPatch (listR ! h0) (listG ! h0) (listB ! h0)
                            (listR ! h, listG ! h, listB ! h)
                            i j gridX gridY (scalefactor ! h) of
               (R2, G2, B2) \<Rightarrow> (listR[h := R2], listG[h := G2], listB[h := B2]))
          else (listR, listG, listB))
        planes1 [0..<gridSize])"
      proof (rule foldl_invariant[where P = "corrInv W x y h0 (listR, listG, listB)", OF p1])
        fix planes2 i
        assume p2: "corrInv W x y h0 (listR, listG, listB) planes2" and i: "i \<in> set [0..<gridSize]"
        obtain lR lG lB where e: "planes2 = (lR, lG, lB)" by (cases planes2)
        have fit1: "(i + 1) * gridX \<le> W"
        proof -
          have "(i + 1) * gridX \<le> gridSize * gridX" using i by (intro mult_le_mono1) simp
          with fit show ?thesis by simp
        qed
        show "corrInv W x y h0 (listR, listG, listB)
          ((\<lambda>(listR, listG, listB) i.
          if patches (i, j) then
            (case copyPatch (listR ! h0) (listG ! h0) (listB ! h0)
                            (listR ! h, listG ! h, listB ! h)
                            i j gridX gridY (scalefactor ! h) of
               (R2, G2, B2) \<Rightarrow> (listR[h := R2], listG[h := G2], listB[h := B2]))
          else (listR, listG, listB)) planes2 i)"
        proof (cases "patches (i, j)")
          case True
          obtain R2 G2 B2 where c: "copyPatch (lR ! h0) (lG ! h0) (lB ! h0) (lR ! h, lG ! h, lB ! h)
                            i j gridX gridY (scalefactor ! h) = (R2, G2, B2)"
            by (metis prod_cases3)
          have k: "saturated (listR ! h0) (listG ! h0) (listB ! h0) i j gridX gridY
            \<or> \<not> inCell gridX gridY i j x y"
            using kept True i j by (auto simp: keptPixel_def)
          have "corrInv W x y h0 (listR, listG, listB) (lR[h := R2], lG[h := G2], lB[h := B2])"
            by (rule corrInv_step[OF p2[unfolded e] _ False x fit1 k c]) (use h in simp)
          then show ?thesis using True c by (simp add: e)
        next
          case False
          then show ?thesis using p2 by (simp add: e)
        qed
      qed
    qed
    then show ?thesis using False by simp
  qed
qed


lemma inCell_unique:
  assumes "inCell gridX gridY i j x y" "inCell gridX gridY i' j' x y"
  shows "i' = i \<and> j' = j"
proof -
  have u: "a' = a" if "a * g \<le> z" "z < (a + 1) * g" "a' * g \<le> z" "z < (a' + 1) * g"
    for a a' g z :: nat
  proof (rule ccontr)
    assume "a' \<noteq> a"
    then consider "a + 1 \<le> a'" | "a' + 1 \<le> a" by linarith
    then show False
    proof cases
      case 1
      then have "(a + 1) * g \<le> a' * g" by (rule mult_le_mono1)
      with that show False by linarith
    next
      case 2
      then have "(a' + 1) * g \<le> a * g" by (rule mult_le_mono1)
      with that show False by linarith
    qed
  qed
  from assms show ?thesis
    unfolding inCell_def by (metis u)
qed

lemma keptPixel_of_cell:
  assumes "inCell gridX gridY i j x y"
    and "\<not> patches (i, j) \<or> saturated R1 G1 B1 i j gridX gridY"
  shows "keptPixel patches R1 G1 B1 gridX gridY x y"
  unfolding keptPixel_def using assms inCell_unique[OF assms(1)] by blast

lemma keptPixelLDR_of_cell:
  assumes "inCell gridX gridY i j x y"
    and "\<not> patches (i, j) \<or> saturatedLDR qt image1 i j gridX gridY"
  shows "keptPixelLDR qt patches image1 gridX gridY x y"
  unfolding keptPixelLDR_def using assms inCell_unique[OF assms(1)] by blast

lemma qpixel_qsetPixel_other:
  assumes "(x', y') \<noteq> (x, y)"
  shows "qpixel (qsetPixel img x' y' p) x y = qpixel img x y"
proof (cases "x' < qwidth img \<and> y' < qheight img \<and> x < qwidth img \<and> y < qheight img")
  case True
  have "y' * qwidth img + x' \<noteq> y * qwidth img + x"
  proof
    assume e: "y' * qwidth img + x' = y * qwidth img + x"
    then have "(y' * qwidth img + x') div qwidth img = (y * qwidth img + x) div qwidth img" by simp
    then have "y' = y" using True by simp
    with e assms show False by simp
  qed
  then show ?thesis using True by (simp add: qpixel_def qsetPixel_def)
next
  case False
  then show ?thesis by (auto simp: qpixel_def qsetPixel_def)
qed

lemma foldl_value_nonneg:
  assumes "\<And>p. 0 \<le> qt_value qt p" and "0 \<le> a"
  shows "\<exists>S\<ge>0. foldl (\<lambda>avgL (x, y). fadd avgL (Fin (of_int (qt_value qt (qpixel qImage x y)))))
            (Fin a) cs = Fin S"
  using assms(2)
proof (induction cs arbitrary: a)
  case Nil
  then show ?case by simp
next
  case (Cons c cs)
  obtain x y where c: "c = (x, y)" by (cases c)
  have "0 \<le> a + of_int (qt_value qt (qpixel qImage x y))"
    using Cons.prems assms(1)[of "qpixel qImage x y"] by simp
  from Cons.IH[OF this] show ?case by (simp add: c)
qed

lemma saturatedLDR_skips:
  assumes "\<And>p. 0 \<le> qt_value qt p" and "saturatedLDR qt image1 i j gridX gridY"
  shows "fge (cellLightnessLDR qt image1 i j gridX gridY) (Fin 255)
          \<or> feq (cellLightnessLDR qt image1 i j gridX gridY) (Fin 0)"
proof -
  from foldl_value_nonneg[OF assms(1), of 0 image1 "cellCoords i j gridX gridY"]
  obtain S where S: "0 \<le> S"
      "foldl (\<lambda>avgL (x, y). fadd avgL (Fin (of_int (qt_value qt (qpixel image1 x y)))))
            (Fin 0) (cellCoords i j gridX gridY) = Fin S"
    by auto
  have "fle (fdiv (Fin S) (Fin (real n))) (Fin 0) \<Longrightarrow> feq (fdiv (Fin S) (Fin (real n))) (Fin 0)"
    for n :: nat
    using S(1) by (auto simp: fle_def inf_of_sign_def divide_less_0_iff split: if_splits)
  then show ?thesis
    using assms(2) unfolding saturatedLDR_def cellLightnessLDR_def S(2) by blast
qed

lemma copyPatchLDR_keeps:
  assumes nn: "\<And>p. 0 \<le> qt_value qt p"
    and k: "saturatedLDR qt image1 i j gridX gridY \<or> \<not> inCell gridX gridY i j x y"
  shows "qpixel (copyPatchLDR qt image1 image2 i j gridX gridY sf) x y = qpixel image2 x y"
proof (cases "saturatedLDR qt image1 i j gridX gridY")
  case True
  from saturatedLDR_skips[OF nn True] show ?thesis
    by (simp add: copyPatchLDR_def Let_def)
next
  case False
  with k have out: "(x, y) \<notin> set (cellCoords i j gridX gridY)" by (simp add: set_cellCoords)
  have "qpixel (foldl (\<lambda>image2 (x, y). qsetPixel image2 x y (scaledQRgb qt sf (qpixel image1 x y)))
            image2 (cellCoords i j gridX gridY)) x y = qpixel image2 x y"
  proof (rule foldl_invariant[where P = "\<lambda>img. qpixel img x y = qpixel image2 x y"])
    show "qpixel image2 x y = qpixel image2 x y" by simp
  next
    fix a c
    assume a: "qpixel a x y = qpixel image2 x y" and c: "c \<in> set (cellCoords i j gridX gridY)"
    obtain x' y' where c': "c = (x', y')" by (cases c)
    have "(x', y') \<noteq> (x, y)" using out c c' by auto
    then show "qpixel ((\<lambda>image2 (x, y). qsetPixel image2 x y (scaledQRgb qt sf (qpixel image1 x y))) a c) x y
        = qpixel image2 x y"
      using a by (simp add: c' qpixel_qsetPixel_other)
  qed
  then show ?thesis by (simp add: copyPatchLDR_def Let_def)
qed

lemma copyPatchesLDR_corrInv:
  assumes nn: "\<And>p. 0 \<le> qt_value qt p"
    and kept: "keptPixelLDR qt patches (list ! h0) gridX gridY x y"
  shows "corrInvLDR x y h0 list (copyPatchesLDR qt list patches h0 scalefactor gridX gridY)"
  unfolding copyPatchesLDR_def
proof (rule foldl_invariant[where P = "corrInvLDR x y h0 list"])
  show "corrInvLDR x y h0 list list" by (simp add: corrInvLDR_def)
next
  fix l1 h
  assume p: "corrInvLDR x y h0 list l1" and h: "h \<in> set [0..<length list]"
  show "corrInvLDR x y h0 list
     (if h = h0 then l1 else
      foldl (\<lambda>list j. foldl (\<lambda>list i.
          if patches (i, j) then
            list[h := copyPatchLDR qt (list ! h0) (list ! h) i j gridX gridY (scalefactor ! h)]
          else list)
        list [0..<gridSize]) l1 [0..<gridSize])"
  proof (cases "h = h0")
    case True
    then show ?thesis using p by simp
  next
    case False
    have "corrInvLDR x y h0 list
      (foldl (\<lambda>list j. foldl (\<lambda>list i.
          if patches (i, j) then
            list[h := copyPatchLDR qt (list ! h0) (list ! h) i j gridX gridY (scalefactor ! h)]
          else list)
        list [0..<gridSize]) l1 [0..<gridSize])"
    proof (rule foldl_invariant[where P = "corrInvLDR x y h0 list", OF p])
      fix l2 j
      assume p2: "corrInvLDR x y h0 list l2" and j: "j \<in> set [0..<gridSize]"
      show "corrInvLDR x y h0 list
         (foldl (\<lambda>list i.
          if patches (i, j) then
            list[h := copyPatchLDR qt (list ! h0) (list ! h) i j gridX gridY (scalefactor ! h)]
          else list) l2 [0..<gridSize])"
      proof (rule foldl_invariant[where P = "corrInvLDR x y h0 list", OF p2])
        fix l3 i
        assume p3: "corrInvLDR x y h0 list l3" and i: "i \<in> set [0..<gridSize]"
        show "corrInvLDR x y h0 list
           (if patches (i, j) then
              l3[h := copyPatchLDR qt (l3 ! h0) (l3 ! h) i j gridX gridY (scalefactor ! h)]
            else l3)"
        proof (cases "patches (i, j)")
          case True
          have k: "saturatedLDR qt (l3 ! h0) i j gridX gridY \<or> \<not> inCell gridX gridY i j x y"
            using kept True i j p3 by (auto simp: keptPixelLDR_def corrInvLDR_def)
          have e: "qpixel (copyPatchLDR qt (l3 ! h0) (l3 ! h) i j gridX gridY (scalefactor ! h)) x y
              = qpixel (l3 ! h) x y"
            by (rule copyPatchLDR_keeps[OF nn k])
          have "qpixel (l3[h := copyPatchLDR qt (l3 ! h0) (l3 ! h) i j gridX gridY (scalefactor ! h)] ! h') x y
              = qpixel (list ! h') x y" if h': "h' < length list" for h'
          proof (cases "h' = h")
            case True
            then show ?thesis using e p3 h' by (simp add: corrInvLDR_def)
          next
            case False
            then show ?thesis using p3 h' by (simp add: corrInvLDR_def)
          qed
          then show ?thesis using True p3 False by (simp add: corrInvLDR_def)
        next
          case False
          then show ?thesis using p3 by simp
        qed
      qed
    qed
    then show ?thesis using False by simp
  qed
qed

lemma copyPatches_reference:
  "sameExposure (copyPatches planes patches h0 scalefactor gridX gridY) planes h0"
  unfolding copyPatches_def
proof (rule foldl_invariant[where P = "\<lambda>p. sameExposure p planes h0"])
  show "sameExposure planes planes h0" by (simp add: sameExposure_def split: prod.splits)
next
  fix p1 h
  assume p1: "sameExposure p1 planes h0"
  show "sameExposure (if h = h0 then p1 else
      foldl (\<lambda>planes j. foldl (\<lambda>(listR, listG, listB) i.
          if patches (i, j) then
            (case copyPatch (listR ! h0) (listG ! h0) (listB ! h0)
                            (listR ! h, listG ! h, listB ! h)
                            i j gridX gridY (scalefactor ! h) of
               (R2, G2, B2) \<Rightarrow> (listR[h := R2], listG[h := G2], listB[h := B2]))
          else (listR, listG, listB))
        planes [0..<gridSize]) p1 [0..<gridSize]) planes h0"
  proof (cases "h = h0")
    case True
    then show ?thesis using p1 by simp
  next
    case False
    have "sameExposure (foldl (\<lambda>planes j. foldl (\<lambda>(listR, listG, listB) i.
          if patches (i, j) then
            (case copyPatch (listR ! h0) (listG ! h0) (listB ! h0)
                            (listR ! h, listG ! h, listB ! h)
                            i j gridX gridY (scalefactor ! h) of
               (R2, G2, B2) \<Rightarrow> (listR[h := R2], listG[h := G2], listB[h := B2]))
          else (listR, listG, listB))
        planes [0..<gridSize]) p1 [0..<gridSize]) planes h0"
    proof (rule foldl_invariant[where P = "\<lambda>p. sameExposure p planes h0", OF p1])
      fix p2 j
      assume p2: "sameExposure p2 planes h0"
      show "sameExposure (foldl (\<lambda>(listR, listG, listB) i.
          if patches (i, j) then
            (case copyPatch (listR ! h0) (listG ! h0) (listB ! h0)
                            (listR ! h, listG ! h, listB ! h)
                            i j gridX gridY (scalefactor ! h) of
               (R2, G2, B2) \<Rightarrow> (listR[h := R2], listG[h := G2], listB[h := B2]))
          else (listR, listG, listB)) p2 [0..<gridSize]) planes h0"
      proof (rule foldl_invariant[where P = "\<lambda>p. sameExposure p planes h0", OF p2])
        fix p3 i
        assume p3: "sameExposure p3 planes h0"
        show "sameExposure ((\<lambda>(listR, listG, listB) i.
          if patches (i, j) then
            (case copyPatch (listR ! h0) (listG ! h0) (listB ! h0)
                            (listR ! h, listG ! h, listB ! h)
                            i j gridX gridY (scalefactor ! h) of
               (R2, G2, B2) \<Rightarrow> (listR[h := R2], listG[h := G2], listB[h := B2]))
          else (listR, listG, listB)) p3 i) planes h0"
          using p3 False by (auto simp: sameExposure_def split: prod.splits)
      qed
    qed
    then show ?thesis using False by simp
  qed
qed

lemma copyPatchesLDR_reference:
  "copyPatchesLDR qt list patches h0 scalefactor gridX gridY ! h0 = list ! h0"
  unfolding copyPatchesLDR_def
proof (rule foldl_invariant[where P = "\<lambda>l. l ! h0 = list ! h0"])
  show "list ! h0 = list ! h0" by simp
next
  fix l1 h
  assume p1: "l1 ! h0 = list ! h0"
  show "(if h = h0 then l1 else
      foldl (\<lambda>list j. foldl (\<lambda>list i.
          if patches (i, j) then
            list[h := copyPatchLDR qt (list ! h0) (list ! h) i j gridX gridY (scalefactor ! h)]
          else list)
        list [0..<gridSize]) l1 [0..<gridSize]) ! h0 = list ! h0"
  proof (cases "h = h0")
    case True
    then show ?thesis using p1 by simp
  next
    case False
    have "foldl (\<lambda>list j. foldl (\<lambda>list i.
          if patches (i, j) then
            list[h := copyPatchLDR qt (list ! h0) (list ! h) i j gridX gridY (scalefactor ! h)]
          else list)
        list [0..<gridSize]) l1 [0..<gridSize] ! h0 = list ! h0"
    proof (rule foldl_invariant[where P = "\<lambda>l. l ! h0 = list ! h0", OF p1])
      fix l2 j
      assume p2: "l2 ! h0 = list ! h0"
      show "foldl (\<lambda>list i.
          if patches (i, j) then
            list[h := copyPatchLDR qt (list ! h0) (list ! h) i j gridX gridY (scalefactor ! h)]
          else list) l2 [0..<gridSize] ! h0 = list ! h0"
        by (rule foldl_invariant[where P = "\<lambda>l. l ! h0 = list ! h0", OF p2]) (use False in auto)
    qed
    then show ?thesis using False by simp
  qed
qed

text \<open>
  Claim C8. \<^verbatim>\<open>copyPatches\<close> leaves the reference exposure \<open>h0\<close> as it is, and in every
  exposure it leaves every pixel of a grid cell as it is when the cell is not flagged or
  when the average lightness of the reference in the cell is at or beyond the saturation
  bounds (at least the largest lightness, or at most zero). This holds on float planes
  (all planes \<open>W\<close> wide, the grid fitting into the width) and on eight-bit images.
\<close>

theorem C8_copyPatches_frame:
  assumes wide: "planesWide W (listR, listG, listB)" and fit: "gridSize * gridX \<le> W"
    and h0: "h0 < length listR" "h0 < length list"
    and nn: "\<forall>p. 0 \<le> qt_value qt p"
  shows "sameExposure (copyPatches (listR, listG, listB) patches h0 scalefactor gridX gridY)
            (listR, listG, listB) h0 \<and>
     (\<forall>h<length listR. \<forall>x<W. \<forall>y i j.
         inCell gridX gridY i j x y \<and>
         (\<not> patches (i, j) \<or> saturated (listR ! h0) (listG ! h0) (listB ! h0) i j gridX gridY) \<longrightarrow>
         samePixel (copyPatches (listR, listG, listB) patches h0 scalefactor gridX gridY)
            (listR, listG, listB) h x y) \<and>
     copyPatchesLDR qt list patches h0 scalefactor gridX gridY ! h0 = list ! h0 \<and>
     (\<forall>h<length list. \<forall>x y i j.
         inCell gridX gridY i j x y \<and>
         (\<not> patches (i, j) \<or> saturatedLDR qt (list ! h0) i j gridX gridY) \<longrightarrow>
         qpixel (copyPatchesLDR qt list patches h0 scalefactor gridX gridY ! h) x y
           = qpixel (list ! h) x y)"
proof (intro conjI allI impI)
  show "sameExposure (copyPatches (listR, listG, listB) patches h0 scalefactor gridX gridY)
            (listR, listG, listB) h0"
    by (rule copyPatches_reference)
  show "samePixel (copyPatches (listR, listG, listB) patches h0 scalefactor gridX gridY)
            (listR, listG, listB) h x y"
    if "h < length listR" "x < W" 
      "inCell gridX gridY i j x y \<and>
         (\<not> patches (i, j) \<or> saturated (listR ! h0) (listG ! h0) (listB ! h0) i j gridX gridY)"
    for h x y i j
  proof -
    have "keptPixel patches (listR ! h0) (listG ! h0) (listB ! h0) gridX gridY x y"
      using that(3) by (intro keptPixel_of_cell[of gridX gridY i j]) auto
    from copyPatches_corrInv[OF wide that(2) fit this, of scalefactor] that(1)
    show ?thesis
      by (auto simp: corrInv_def samePixel_def split: prod.splits)
  qed
  show "copyPatchesLDR qt list patches h0 scalefactor gridX gridY ! h0 = list ! h0"
    by (rule copyPatchesLDR_reference)
  show "qpixel (copyPatchesLDR qt list patches h0 scalefactor gridX gridY ! h) x y
           = qpixel (list ! h) x y"
    if "h < length list"
      "inCell gridX gridY i j x y \<and> (\<not> patches (i, j) \<or> saturatedLDR qt (list ! h0) i j gridX gridY)"
    for h x y i j
  proof -
    have "keptPixelLDR qt patches (list ! h0) gridX gridY x y"
      using that(2) by (intro keptPixelLDR_of_cell[of gridX gridY i j]) auto
    from copyPatchesLDR_corrInv[OF _ this, of scalefactor] nn that(1)
    show ?thesis by (auto simp: corrInvLDR_def)
  qed
qed


theorem C8_copyPatches_frame_witness:
  "planesWide 40 (greyPair 40 40, greyPair 40 40, greyPair 40 40) \<and> gridSize * 1 \<le> 40 \<and>
   (0::nat) < length (greyPair 40 40) \<and> (0::nat) < length greyImages \<and>
   (\<forall>p. 0 \<le> qt_value plainQt p) \<and>
   sameExposure (copyPatches (greyPair 40 40, greyPair 40 40, greyPair 40 40) (\<lambda>c. c = (0, 0)) 0
                   [Fin 1, Fin 2] 1 1)
     (greyPair 40 40, greyPair 40 40, greyPair 40 40) 0 \<and>
   samePixel (copyPatches (greyPair 40 40, greyPair 40 40, greyPair 40 40) (\<lambda>c. c = (0, 0)) 0
                   [Fin 1, Fin 2] 1 1)
     (greyPair 40 40, greyPair 40 40, greyPair 40 40) 1 5 5 \<and>
   copyPatchesLDR plainQt greyImages (\<lambda>c. c = (0, 0)) 0 [Fin 1, Fin 2] 1 1 ! 0 = greyImages ! 0 \<and>
   qpixel (copyPatchesLDR plainQt greyImages (\<lambda>c. c = (0, 0)) 0 [Fin 1, Fin 2] 1 1 ! 1) 5 5
     = qpixel (greyImages ! 1) 5 5"
proof -
  have w: "planesWide 40 (greyPair 40 40, greyPair 40 40, greyPair 40 40)"
    by (simp add: planesWide_def greyPair_def constPlane_def)
  have f: "gridSize * 1 \<le> 40" by (simp add: gridSize_def)
  have h: "(0::nat) < length (greyPair 40 40)" "(0::nat) < length greyImages"
    by (simp_all add: greyPair_def greyImages_def)
  have n: "\<forall>p. 0 \<le> qt_value plainQt p" by (simp add: plainQt_def)
  have c: "inCell 1 1 5 5 5 5 \<and> (\<not> (\<lambda>c. c = (0, 0)) (5::nat, 5::nat) \<or> X)" for X
    by (simp add: inCell_def)
  have l: "(1::nat) < length (greyPair 40 40)" "(1::nat) < length greyImages" "(5::nat) < 40"
    by (simp_all add: greyPair_def greyImages_def)
  note t = C8_copyPatches_frame[OF w f h n, of "\<lambda>c. c = (0, 0)" "[Fin 1, Fin 2]" 1]
  from t have 1: "sameExposure (copyPatches (greyPair 40 40, greyPair 40 40, greyPair 40 40)
        (\<lambda>c. c = (0, 0)) 0 [Fin 1, Fin 2] 1 1) (greyPair 40 40, greyPair 40 40, greyPair 40 40) 0"
    by blast
  from t l(1,3) c have 2: "samePixel (copyPatches (greyPair 40 40, greyPair 40 40, greyPair 40 40)
        (\<lambda>c. c = (0, 0)) 0 [Fin 1, Fin 2] 1 1) (greyPair 40 40, greyPair 40 40, greyPair 40 40) 1 5 5"
    by blast
  from t have 3: "copyPatchesLDR plainQt greyImages (\<lambda>c. c = (0, 0)) 0 [Fin 1, Fin 2] 1 1 ! 0
      = greyImages ! 0"
    by blast
  from t l(2) c have 4: "qpixel (copyPatchesLDR plainQt greyImages (\<lambda>c. c = (0, 0)) 0 [Fin 1, Fin 2] 1 1 ! 1) 5 5
     = qpixel (greyImages ! 1) 5 5"
    by blast
  from w f h n 1 2 3 4 show ?thesis by (intro conjI)
qed

end
